theory Spec2Isabelle
  imports Main "HOL-Library.Multiset"
begin

section \<open>Strings and characters\<close>

text \<open>
  Template text is a \<^typ>\<open>string\<close>: a list of code units.  The model covers the code
  units below 256; every pattern character of the engine is ASCII, so case folding
  under the \<open>i\<close> flag only ever identifies ASCII letters.
\<close>

definition is_space :: "char \<Rightarrow> bool" where
  \<comment> \<open>the class \<open>\s\<close> (and the characters removed by \<open>trim\<close>) below code unit 256\<close>
  "is_space c = (c \<in> set [CHR 0x09, CHR 0x0A, CHR 0x0B, CHR 0x0C, CHR 0x0D, CHR 0x20, CHR 0xA0])"

definition is_word :: "char \<Rightarrow> bool" where
  \<comment> \<open>the class \<open>\w\<close>\<close>
  "is_word c = (let n = of_char c :: nat in
     (48 \<le> n \<and> n \<le> 57) \<or> (65 \<le> n \<and> n \<le> 90) \<or> n = 95 \<or> (97 \<le> n \<and> n \<le> 122))"

definition is_line_end :: "char \<Rightarrow> bool" where
  \<comment> \<open>the line terminators that \<open>.\<close> does not match\<close>
  "is_line_end c = (c = CHR 0x0A \<or> c = CHR 0x0D)"

definition trim :: "string \<Rightarrow> string" where
  "trim s = rev (dropWhile is_space (rev (dropWhile is_space s)))"

definition slice :: "string \<Rightarrow> nat \<Rightarrow> nat \<Rightarrow> string" where
  \<comment> \<open>\<open>s.slice(a, b)\<close> for non-negative indices\<close>
  "slice s a b = take (b - a) (drop a s)"

fun starts_with :: "string \<Rightarrow> string \<Rightarrow> bool" where
  "starts_with s [] = True"
| "starts_with [] (p # ps) = False"
| "starts_with (c # cs) (p # ps) = (c = p \<and> starts_with cs ps)"

fun index_from :: "string \<Rightarrow> string \<Rightarrow> nat \<Rightarrow> nat option" where
  \<comment> \<open>\<open>index_from rest pat i\<close>: first position of \<open>pat\<close> in \<open>rest\<close>, counted from \<open>i\<close>\<close>
  "index_from [] pat i = (if pat = [] then Some i else None)"
| "index_from (c # cs) pat i =
     (if starts_with (c # cs) pat then Some i else index_from cs pat (Suc i))"

definition index_of :: "string \<Rightarrow> string \<Rightarrow> nat \<Rightarrow> nat option" where
  \<comment> \<open>\<open>s.indexOf(pat, i)\<close>; \<open>None\<close> stands for \<open>-1\<close>\<close>
  "index_of s pat i = index_from (drop i s) pat (min i (length s))"

definition str_includes :: "string \<Rightarrow> string \<Rightarrow> bool" where
  "str_includes s pat = (index_of s pat 0 \<noteq> None)"

section \<open>Regular expressions\<close>

text \<open>
  The engine is written with regular expressions, matched by backtracking in the
  order the language fixes: greedy quantifiers try the longest repetition first, lazy
  ones the shortest, alternatives left to right, and a repetition that consumed nothing
  is rejected.  The matcher is a machine with an explicit continuation: the items still
  to be matched after the current one.  Its state is the position \<open>i\<close>, the text from
  \<open>i\<close> on, and the captures.  No repeated sub-expression of the engine contains a
  group, except the optional ones, which run once: clearing captures on re-entry is
  not modelled.
\<close>

type_synonym caps = "(nat \<times> nat) option list"

datatype rx =
    Eps
  | Chr char
  | Cls "char \<Rightarrow> bool"
  | Seq rx rx
  | Alt rx rx
  | Star bool rx
  | Opt rx
  | Grp nat rx
  | Ahead rx
  | Bol
  | Eol

datatype item =
    Rx rx
  | Loop bool rx nat
  | Progress nat
  | Close nat nat

fun rx_weight :: "rx \<Rightarrow> nat" where
  "rx_weight Eps = 1"
| "rx_weight (Chr a) = 1"
| "rx_weight (Cls p) = 1"
| "rx_weight (Seq a b) = Suc (rx_weight a + rx_weight b)"
| "rx_weight (Alt a b) = Suc (rx_weight a + rx_weight b)"
| "rx_weight (Star g a) = rx_weight a + 2"
| "rx_weight (Opt a) = rx_weight a + 2"
| "rx_weight (Grp n a) = rx_weight a + 2"
| "rx_weight (Ahead a) = Suc (rx_weight a)"
| "rx_weight Bol = 1"
| "rx_weight Eol = 1"

fun item_weight :: "nat \<Rightarrow> item \<Rightarrow> nat" where
  "item_weight i (Rx r) = rx_weight r"
| "item_weight i (Loop g a i0) = (if i0 < i then rx_weight a + 3 else 0)"
| "item_weight i (Progress i0) = 1"
| "item_weight i (Close n i0) = 1"

function rx_run :: "item list \<Rightarrow> nat \<Rightarrow> string \<Rightarrow> caps \<Rightarrow> (nat \<times> caps) option" where
  "rx_run [] i rest c = Some (i, c)"
| "rx_run (Rx Eps # K) i rest c = rx_run K i rest c"
| "rx_run (Rx (Chr a) # K) i [] c = None"
| "rx_run (Rx (Chr a) # K) i (x # xs) c = (if x = a then rx_run K (Suc i) xs c else None)"
| "rx_run (Rx (Cls p) # K) i [] c = None"
| "rx_run (Rx (Cls p) # K) i (x # xs) c = (if p x then rx_run K (Suc i) xs c else None)"
| "rx_run (Rx (Seq a b) # K) i rest c = rx_run (Rx a # Rx b # K) i rest c"
| "rx_run (Rx (Alt a b) # K) i rest c =
     (case rx_run (Rx a # K) i rest c of Some r \<Rightarrow> Some r | None \<Rightarrow> rx_run (Rx b # K) i rest c)"
| "rx_run (Rx (Star greedy a) # K) i rest c =
     (if greedy then
        (case rx_run (Rx a # Loop greedy a i # K) i rest c of
           Some r \<Rightarrow> Some r
         | None \<Rightarrow> rx_run K i rest c)
      else
        (case rx_run K i rest c of
           Some r \<Rightarrow> Some r
         | None \<Rightarrow> rx_run (Rx a # Loop greedy a i # K) i rest c))"
| "rx_run (Loop greedy a i0 # K) i rest c =
     (if i0 < i then rx_run (Rx (Star greedy a) # K) i rest c else None)"
| "rx_run (Rx (Opt a) # K) i rest c =
     (case rx_run (Rx a # Progress i # K) i rest c of Some r \<Rightarrow> Some r | None \<Rightarrow> rx_run K i rest c)"
| "rx_run (Progress i0 # K) i rest c = (if i0 < i then rx_run K i rest c else None)"
| "rx_run (Rx (Grp n a) # K) i rest c = rx_run (Rx a # Close n i # K) i rest c"
| "rx_run (Close n i0 # K) i rest c = rx_run K i rest (c[n := Some (i0, i)])"
| "rx_run (Rx (Ahead a) # K) i rest c =
     (case rx_run [Rx a] i rest c of None \<Rightarrow> None | Some (j, c') \<Rightarrow> rx_run K i rest c')"
| "rx_run (Rx Bol # K) i rest c = (if i = 0 then rx_run K i rest c else None)"
| "rx_run (Rx Eol # K) i rest c = (if rest = [] then rx_run K i rest c else None)"
  by pat_completeness auto
termination
  by (relation "inv_image (less_than <*lex*> less_than)
                  (\<lambda>(K, i, rest, c). (length rest, sum_list (map (item_weight i) K)))") auto

definition seqs :: "rx list \<Rightarrow> rx" where
  "seqs rs = foldr Seq rs Eps"

definition lit :: "string \<Rightarrow> rx" where
  "lit s = seqs (map Chr s)"

definition plus :: "bool \<Rightarrow> rx \<Rightarrow> rx" where
  \<comment> \<open>\<open>a+\<close> and \<open>a+?\<close>: one \<open>a\<close>, then \<open>a*\<close> or \<open>a*?\<close>\<close>
  "plus greedy a = Seq a (Star greedy a)"

definition any_char :: rx where
  \<comment> \<open>\<open>[\s\S]\<close>\<close>
  "any_char = Cls (\<lambda>c. True)"

definition not_char :: "char \<Rightarrow> rx" where
  \<comment> \<open>\<open>[^c]\<close>\<close>
  "not_char a = Cls (\<lambda>c. c \<noteq> a)"

definition other_case :: "char \<Rightarrow> char" where
  "other_case c = (let n = of_char c :: nat in
     if 97 \<le> n \<and> n \<le> 122 then char_of (n - 32)
     else if 65 \<le> n \<and> n \<le> 90 then char_of (n + 32)
     else c)"

fun ci :: "rx \<Rightarrow> rx" where
  \<comment> \<open>the \<open>i\<close> flag: a pattern character matches both cases of a letter; the classes the
      engine uses (\<open>\s\<close>, \<open>\w\<close>, \<open>[^c]\<close> with \<open>c\<close> not a letter) are closed under case\<close>
  "ci (Chr a) = Cls (\<lambda>x. x = a \<or> x = other_case a)"
| "ci (Seq a b) = Seq (ci a) (ci b)"
| "ci (Alt a b) = Alt (ci a) (ci b)"
| "ci (Star g a) = Star g (ci a)"
| "ci (Opt a) = Opt (ci a)"
| "ci (Grp n a) = Grp n (ci a)"
| "ci (Ahead a) = Ahead (ci a)"
| "ci r = r"

definition rx_exec_at :: "rx \<Rightarrow> nat \<Rightarrow> string \<Rightarrow> nat \<Rightarrow> (nat \<times> caps) option" where
  \<comment> \<open>a match that starts exactly at \<open>i\<close>: its end and its \<open>n\<close> capture groups\<close>
  "rx_exec_at r n s i = rx_run [Rx r] i (drop i s) (replicate n None)"

function rx_match_all_from :: "rx \<Rightarrow> nat \<Rightarrow> string \<Rightarrow> nat \<Rightarrow> (nat \<times> nat \<times> caps) list" where
  "rx_match_all_from r n s i =
     (if length s < i then []
      else case rx_exec_at r n s i of
             None \<Rightarrow> rx_match_all_from r n s (Suc i)
           | Some (e, c) \<Rightarrow> (i, e, c) # rx_match_all_from r n s (if i < e then e else Suc i))"
  by pat_completeness auto
termination
  by (relation "measure (\<lambda>(r, n, s, i). Suc (length s) - i)") auto

declare rx_match_all_from.simps [simp del]

definition rx_match_all :: "rx \<Rightarrow> nat \<Rightarrow> string \<Rightarrow> (nat \<times> nat \<times> caps) list" where
  \<comment> \<open>the successive matches of a global regular expression, from \<open>lastIndex = 0\<close>: each
      search resumes at the end of the previous match, one further after an empty match\<close>
  "rx_match_all r n s = rx_match_all_from r n s 0"

definition rx_test :: "rx \<Rightarrow> nat \<Rightarrow> string \<Rightarrow> bool" where
  "rx_test r n s = (rx_match_all r n s \<noteq> [])"

definition rx_first :: "rx \<Rightarrow> nat \<Rightarrow> string \<Rightarrow> (nat \<times> nat \<times> caps) option" where
  \<comment> \<open>\<open>s.match(r)\<close> for a regular expression without the \<open>g\<close> flag\<close>
  "rx_first r n s = (case rx_match_all r n s of [] \<Rightarrow> None | m # ms \<Rightarrow> Some m)"

definition groups :: "string \<Rightarrow> caps \<Rightarrow> string option list" where
  \<comment> \<open>the captured substrings; \<open>None\<close> is a group that did not take part (\<open>undefined\<close>)\<close>
  "groups s c = map (map_option (\<lambda>(a, b). slice s a b)) c"

definition group :: "string option list \<Rightarrow> nat \<Rightarrow> string option" where
  "group gs n = (if n < length gs then gs ! n else None)"

definition or_empty :: "string option \<Rightarrow> string" where
  \<comment> \<open>\<open>x || ''\<close> on a string or \<open>undefined\<close>\<close>
  "or_empty x = (case x of None \<Rightarrow> [] | Some s \<Rightarrow> s)"

fun splice_matches :: "string \<Rightarrow> nat \<Rightarrow> (nat \<times> nat \<times> string) list \<Rightarrow> string" where
  "splice_matches s pos [] = drop pos s"
| "splice_matches s pos ((a, e, rep) # ms) = slice s pos a @ rep @ splice_matches s e ms"

definition rx_replace ::
  "rx \<Rightarrow> nat \<Rightarrow> string \<Rightarrow> (string \<Rightarrow> string option list \<Rightarrow> string) \<Rightarrow> string" where
  \<comment> \<open>\<open>s.replace(r, callback)\<close> for a global \<open>r\<close>: the callback gets the matched text and the groups\<close>
  "rx_replace r n s f =
     splice_matches s 0 (map (\<lambda>(a, e, c). (a, e, f (slice s a e) (groups s c))) (rx_match_all r n s))"

fun get_substitution :: "string \<Rightarrow> string \<Rightarrow> string \<Rightarrow> string \<Rightarrow> string" where
  \<comment> \<open>GetSubstitution for a pattern without capture groups: \<open>$$\<close>, \<open>$&\<close>, \<open>$`\<close> and \<open>$'\<close>\<close>
  "get_substitution matched pre post [] = []"
| "get_substitution matched pre post [c] = [c]"
| "get_substitution matched pre post (c # d # rest) =
     (if c = CHR ''$'' \<and> d = CHR ''$'' then CHR ''$'' # get_substitution matched pre post rest
      else if c = CHR ''$'' \<and> d = CHR ''&'' then matched @ get_substitution matched pre post rest
      else if c = CHR ''$'' \<and> d = CHR 0x60 then pre @ get_substitution matched pre post rest
      else if c = CHR ''$'' \<and> d = CHR 0x27 then post @ get_substitution matched pre post rest
      else c # get_substitution matched pre post (d # rest))"

definition rx_replace_str :: "rx \<Rightarrow> string \<Rightarrow> string \<Rightarrow> string" where
  \<comment> \<open>\<open>s.replace(r, replacement)\<close> for a global \<open>r\<close> without capture groups and a string\<close>
  "rx_replace_str r s replacement =
     splice_matches s 0
       (map (\<lambda>(a, e, c). (a, e, get_substitution (slice s a e) (take a s) (drop e s) replacement))
            (rx_match_all r 0 s))"

section \<open>Values and the host\<close>

text \<open>
  The values a variable context holds.  \<open>JFun\<close> is a function of the host, known by its
  name only.  Numbers are the integral ones and \<open>NaN\<close>: the engine itself only tests
  values for truthiness, type and emptiness, and counts loop indices.
\<close>

datatype jsval =
    JUndefined
  | JNull
  | JBool bool
  | JNum int
  | JNaN
  | JStr string
  | JArr "jsval list"
  | JObj "(string \<times> jsval) list"
  | JFun string

type_synonym vars = "(string \<times> jsval) list"

text \<open>An object is the list of its own properties in enumeration order.\<close>

fun obj_set :: "vars \<Rightarrow> string \<Rightarrow> jsval \<Rightarrow> vars" where
  "obj_set [] k v = [(k, v)]"
| "obj_set ((k', v') # rest) k v = (if k' = k then (k, v) # rest else (k', v') # obj_set rest k v)"

definition obj_spread :: "vars \<Rightarrow> vars \<Rightarrow> vars" where
  \<comment> \<open>\<open>{ ...a, ...b }\<close>\<close>
  "obj_spread a b = foldl (\<lambda>ob (k, v). obj_set ob k v) a b"

definition truthy :: "jsval \<Rightarrow> bool" where
  "truthy v = (case v of
       JUndefined \<Rightarrow> False | JNull \<Rightarrow> False | JBool b \<Rightarrow> b | JNum n \<Rightarrow> n \<noteq> 0 | JNaN \<Rightarrow> False
     | JStr s \<Rightarrow> s \<noteq> [] | JArr xs \<Rightarrow> True | JObj ps \<Rightarrow> True | JFun f \<Rightarrow> True)"

definition unsafeKeys :: "string list" where
  "unsafeKeys = [''__proto__'', ''constructor'', ''prototype'', ''then'', ''toString'', ''valueOf'',
                 ''Object'', ''Function'', ''Promise'']"

definition object_prototype_keys :: "string list" where
  \<comment> \<open>what every plain object inherits from \<open>Object.prototype\<close>\<close>
  "object_prototype_keys = [''constructor'', ''__defineGetter__'', ''__defineSetter__'', ''hasOwnProperty'',
     ''__lookupGetter__'', ''__lookupSetter__'', ''isPrototypeOf'', ''propertyIsEnumerable'', ''toString'',
     ''valueOf'', ''__proto__'', ''toLocaleString'']"

definition obj_get :: "vars \<Rightarrow> string \<Rightarrow> jsval" where
  \<comment> \<open>\<open>o[k]\<close> on a plain object: an own property, else an inherited member, else \<open>undefined\<close>\<close>
  "obj_get ob k = (case map_of ob k of
       Some v \<Rightarrow> v
     | None \<Rightarrow> if k \<in> set object_prototype_keys then JFun k else JUndefined)"

function dec :: "nat \<Rightarrow> string" where
  \<comment> \<open>the decimal form of an index, as \<open>String(i)\<close>\<close>
  "dec n = (if n < 10 then [char_of (48 + n)] else dec (n div 10) @ [char_of (48 + n mod 10)])"
  by pat_completeness auto
termination
  by (relation "measure id") auto

declare dec.simps [simp del]

text \<open>
  What the engine asks of its host: running an expression in a fresh context
  (\<open>vm.runInContext\<close>, which returns a value or throws, a timeout included), the string
  forms of values, parsing a number, and the registry of the user's own functions and
  variables, which another module loads.
\<close>

record host =
  vm_run :: "string \<Rightarrow> vars \<Rightarrow> string + jsval"
  to_string :: "jsval \<Rightarrow> string"
  json_stringify :: "jsval \<Rightarrow> string + string"
  to_number :: "string \<Rightarrow> jsval"
  user_functions :: "string \<Rightarrow> (jsval list \<Rightarrow> string + jsval) option"
  user_variables :: vars

definition safeToString :: "host \<Rightarrow> jsval \<Rightarrow> string" where
  "safeToString h v = (case v of
       JNull \<Rightarrow> []
     | JUndefined \<Rightarrow> []
     | JArr xs \<Rightarrow> (case json_stringify h v of Inl err \<Rightarrow> [] | Inr t \<Rightarrow> t)
     | JObj ps \<Rightarrow> (case json_stringify h v of Inl err \<Rightarrow> [] | Inr t \<Rightarrow> t)
     | _ \<Rightarrow> to_string h v)"

section \<open>The sandbox\<close>

definition safeFunctions :: vars where
  "safeFunctions = map (\<lambda>k. (k, JFun k))
     [''String'', ''Number'', ''Boolean'', ''Array'', ''Date'', ''Math'', ''JSON'',
      ''and'', ''or'', ''not'', ''eq'', ''neq'', ''gt'', ''lt'', ''gte'', ''lte'']"

definition createSafeSandbox :: "vars \<Rightarrow> vars" where
  "createSafeSandbox variables =
     obj_spread (filter (\<lambda>(key, v). key \<notin> set unsafeKeys) variables) safeFunctions"

definition sandbox_context :: "vars \<Rightarrow> vars" where
  \<comment> \<open>the object handed to \<open>vm.createContext\<close>\<close>
  "sandbox_context variables = obj_spread (createSafeSandbox variables)
     [(''process'', JUndefined), (''global'', JUndefined), (''console'', JObj []),
      (''setTimeout'', JUndefined), (''setInterval'', JUndefined), (''setImmediate'', JUndefined),
      (''Buffer'', JUndefined), (''require'', JUndefined)]"

definition evaluateExpression :: "host \<Rightarrow> string \<Rightarrow> vars \<Rightarrow> jsval" where
  "evaluateExpression h expr variables =
     (case vm_run h (''('' @ expr @ '')'') (sandbox_context variables) of
        Inr result \<Rightarrow> result
      | Inl err \<Rightarrow> JNull)"

fun parse_index :: "string \<Rightarrow> nat \<Rightarrow> nat option" where
  \<comment> \<open>\<open>parse_index key n\<close>: the index below \<open>n\<close> that \<open>key\<close> is the decimal form of\<close>
  "parse_index key 0 = None"
| "parse_index key (Suc n) = (if dec n = key then Some n else parse_index key n)"

definition own_property :: "jsval \<Rightarrow> string \<Rightarrow> jsval option" where
  \<comment> \<open>\<open>Object.hasOwnProperty.call(v, key) ? v[key] : undefined\<close>; the own properties of a
      host function are not modelled\<close>
  "own_property v key = (case v of
       JObj ps \<Rightarrow> map_of ps key
     | JArr xs \<Rightarrow> (if key = ''length'' then Some (JNum (int (length xs)))
                  else map_option (\<lambda>i. xs ! i) (parse_index key (length xs)))
     | JStr t \<Rightarrow> (if key = ''length'' then Some (JNum (int (length t)))
                  else map_option (\<lambda>i. JStr [t ! i]) (parse_index key (length t)))
     | _ \<Rightarrow> None)"

fun split_on :: "char \<Rightarrow> string \<Rightarrow> string list" where
  \<comment> \<open>\<open>s.split(c)\<close>\<close>
  "split_on sep [] = [[]]"
| "split_on sep (c # cs) =
     (if c = sep then [] # split_on sep cs
      else case split_on sep cs of [] \<Rightarrow> [[c]] | w # ws \<Rightarrow> (c # w) # ws)"

definition getValueByPath :: "vars \<Rightarrow> string \<Rightarrow> jsval" where
  "getValueByPath ob path = foldl
     (\<lambda>current key.
        if current = JNull \<or> current = JUndefined then JUndefined
        else if key \<in> set unsafeKeys then JUndefined
        else (case own_property current key of Some v \<Rightarrow> v | None \<Rightarrow> JUndefined))
     (JObj ob) (split_on CHR ''.'' path)"

section \<open>The precompiled regular expressions\<close>

definition spaces :: rx where
  \<comment> \<open>\<open>\s*\<close>\<close>
  "spaces = Star True (Cls is_space)"

definition spaces1 :: rx where
  \<comment> \<open>\<open>\s+\<close>\<close>
  "spaces1 = plus True (Cls is_space)"

definition word1 :: rx where
  \<comment> \<open>\<open>\w+\<close>\<close>
  "word1 = plus True (Cls is_word)"

definition dot :: rx where
  \<comment> \<open>\<open>.\<close>\<close>
  "dot = Cls (\<lambda>c. \<not> is_line_end c)"

definition quote :: rx where
  \<comment> \<open>\<open>\"|'\<close>\<close>
  "quote = Alt (Chr (CHR 0x22)) (Chr (CHR 0x27))"

definition includeRegex :: rx where
  \<comment> \<open>\<open>/(\"|')\[include\s+([^\]]+)\](\"|')|\[include\s+([\S\s]+?)\]/gi\<close>\<close>
  "includeRegex = ci (Alt
     (seqs [Grp 0 quote, lit ''[include'', spaces1, Grp 1 (plus True (not_char CHR '']'')), Chr CHR '']'',
            Grp 2 quote])
     (seqs [lit ''[include'', spaces1, Grp 3 (plus False any_char), Chr CHR '']'']))"

definition quotedVarRegex :: rx where
  \<comment> \<open>\<open>/`\s*{{(.*?)}}\s*`/g\<close>\<close>
  "quotedVarRegex = seqs [Chr (CHR 0x60), spaces, lit ''{{'', Grp 0 (Star False dot), lit ''}}'', spaces,
                          Chr (CHR 0x60)]"

definition userFuncRegex :: rx where
  \<comment> \<open>\<open>/\{\{\s*user:\s*([^\s()]+?)\s*\(([^)]*)\)\s*\}\}/g\<close>\<close>
  "userFuncRegex = seqs [lit ''{{'', spaces, lit ''user:'', spaces,
     Grp 0 (plus False (Cls (\<lambda>c. \<not> is_space c \<and> c \<noteq> CHR ''('' \<and> c \<noteq> CHR '')''))), spaces,
     Chr CHR ''('', Grp 1 (Star True (not_char CHR '')'')), Chr CHR '')'', spaces, lit ''}}'']"

definition templateTagRegex :: rx where
  \<comment> \<open>\<open>/\[!([^\]]*?)\]|\[\~([^\]]*?)\]/g\<close>\<close>
  "templateTagRegex = Alt
     (seqs [lit ''[!'', Grp 0 (Star False (not_char CHR '']'')), Chr CHR '']''])
     (seqs [lit ''[~'', Grp 1 (Star False (not_char CHR '']'')), Chr CHR '']''])"

definition IfRegex :: rx where
  \<comment> \<open>\<open>/\{\{if\s+([^}]+)\}\}([\s\S]*?)((?:\{\{else\s+if[^}]*\}\}[\s\S]*?)*)(?:\{\{else\}\}([\s\S]*?))?\{\{endif\}\}/gi\<close>\<close>
  "IfRegex = ci (seqs [lit ''{{if'', spaces1, Grp 0 (plus True (not_char CHR ''}'')), lit ''}}'',
     Grp 1 (Star False any_char),
     Grp 2 (Star True (seqs [lit ''{{else'', spaces1, lit ''if'', Star True (not_char CHR ''}''), lit ''}}'',
                             Star False any_char])),
     Opt (seqs [lit ''{{else}}'', Grp 3 (Star False any_char)]),
     lit ''{{endif}}''])"

definition elseIfRegex :: rx where
  \<comment> \<open>\<open>/\{\{else\s+if\s+([^}]*)\}\}([\s\S]*?)(?=\{\{(?:else\s+if|else|endif)\}\})/gi\<close>\<close>
  "elseIfRegex = ci (seqs [lit ''{{else'', spaces1, lit ''if'', spaces1, Grp 0 (Star True (not_char CHR ''}'')),
     lit ''}}'', Grp 1 (Star False any_char),
     Ahead (seqs [lit ''{{'', Alt (seqs [lit ''else'', spaces1, lit ''if'']) (Alt (lit ''else'') (lit ''endif'')),
                  lit ''}}''])])"

definition forRegex :: rx where
  \<comment> \<open>\<open>/\{\{for\s+(\w+)\s+in\s+([^}]+)\}\}([\s\S]*?)(?:\{\{empty\}\}([\s\S]*?))?\{\{endfor\}\}/gi\<close>\<close>
  "forRegex = ci (seqs [lit ''{{for'', spaces1, Grp 0 word1, spaces1, lit ''in'', spaces1,
     Grp 1 (plus True (not_char CHR ''}'')), lit ''}}'', Grp 2 (Star False any_char),
     Opt (seqs [lit ''{{empty}}'', Grp 3 (Star False any_char)]), lit ''{{endfor}}''])"

definition forKeyValueRegex :: rx where
  \<comment> \<open>\<open>/\{\{for\s+(\w+)\s*,\s*(\w+)\s+in\s+([^}]+)\}\}([\s\S]*?)(?:\{\{empty\}\}([\s\S]*?))?\{\{endfor\}\}/gi\<close>\<close>
  "forKeyValueRegex = ci (seqs [lit ''{{for'', spaces1, Grp 0 word1, spaces, Chr CHR '','', spaces, Grp 1 word1,
     spaces1, lit ''in'', spaces1, Grp 2 (plus True (not_char CHR ''}'')), lit ''}}'',
     Grp 3 (Star False any_char), Opt (seqs [lit ''{{empty}}'', Grp 4 (Star False any_char)]),
     lit ''{{endfor}}''])"

definition objectPropertyRegex :: rx where
  \<comment> \<open>\<open>/\{\{(\w+\.\w+(?:\.\w+)*)\}\}/g\<close>\<close>
  "objectPropertyRegex = seqs [lit ''{{'',
     Grp 0 (seqs [word1, Chr CHR ''.'', word1, Star True (seqs [Chr CHR ''.'', word1])]), lit ''}}'']"

definition expressionRegex :: rx where
  \<comment> \<open>\<open>/\{\{([^}]+)\}\}/g\<close>\<close>
  "expressionRegex = seqs [lit ''{{'', Grp 0 (plus True (not_char CHR ''}'')), lit ''}}'']"

definition variableRegex :: "string \<Rightarrow> rx" where
  \<comment> \<open>\<open>new RegExp(`{{\\s*${_escapeRegExp(key)}\\s*}}`, 'g')\<close>: the key is escaped, so the
      pattern matches it character by character\<close>
  "variableRegex key = seqs [lit ''{{'', spaces, lit key, spaces, lit ''}}'']"

definition quotedArgRegex :: rx where
  \<comment> \<open>\<open>/^["'](.*)["']$/\<close>\<close>
  "quotedArgRegex = seqs [Bol, quote, Grp 0 (Star True dot), quote, Eol]"

definition varArgRegex :: rx where
  \<comment> \<open>\<open>/\{\{(\w+)\}\}/\<close>\<close>
  "varArgRegex = seqs [lit ''{{'', Grp 0 word1, lit ''}}'']"

section \<open>The variable pipeline\<close>

subsection \<open>Loops\<close>

definition object_entries :: "jsval \<Rightarrow> (jsval \<times> jsval) list" where
  \<comment> \<open>\<open>Object.entries\<close> on a value that is neither \<open>null\<close> nor \<open>undefined\<close>\<close>
  "object_entries v = (case v of
       JObj ps \<Rightarrow> map (\<lambda>(k, x). (JStr k, x)) ps
     | JArr xs \<Rightarrow> map (\<lambda>(i, x). (JStr (dec i), x)) (enumerate 0 xs)
     | JStr t \<Rightarrow> map (\<lambda>(i, c). (JStr (dec i), JStr [c])) (enumerate 0 t)
     | _ \<Rightarrow> [])"

definition indexed_entries :: "jsval \<Rightarrow> (jsval \<times> jsval) list option" where
  \<comment> \<open>\<open>collection.map((v, i) => [i, v])\<close>; \<open>None\<close> is the TypeError of a value without \<open>map\<close>\<close>
  "indexed_entries v = (case v of
       JArr xs \<Rightarrow> Some (map (\<lambda>(i, x). (JNum (int i), x)) (enumerate 0 xs))
     | _ \<Rightarrow> None)"

definition loopVariables :: "vars \<Rightarrow> string list \<Rightarrow> jsval \<Rightarrow> jsval \<Rightarrow> nat \<Rightarrow> nat \<Rightarrow> vars" where
  "loopVariables variables namesArray key val i n =
     (let primaryVar = hd namesArray; isKeyValue = (1 < length namesArray);
          lv = obj_spread variables
                 [(primaryVar, if isKeyValue then key else val),
                  (primaryVar @ ''_index'', JNum (int i)),
                  (primaryVar @ ''_isFirst'', JBool (i = 0)),
                  (primaryVar @ ''_isLast'', JBool (Suc i = n))]
      in if isKeyValue then obj_set lv (namesArray ! 1) val else lv)"

text \<open>
  The body of the \<open>for\<close> statement over the entries.  \<open>pv\<close> is \<open>processVariables\<close>, which
  the loop calls on the body of every iteration; it returns \<open>None\<close> when the call
  stack is exhausted, and the \<open>try\<close> around the loop turns that into the empty text.
  On \<open>{{break}}\<close> and on \<open>{{continue}}\<close> the source first assigns the marker-stripped text
  to \<open>processedContent\<close> and then leaves the iteration: that text is never read.
\<close>

fun loop_iterations ::
  "(string \<Rightarrow> vars \<Rightarrow> string option) \<Rightarrow> string list \<Rightarrow> string \<Rightarrow> vars \<Rightarrow>
   (jsval \<times> jsval) list \<Rightarrow> nat \<Rightarrow> nat \<Rightarrow> string \<Rightarrow> string option" where
  "loop_iterations pv namesArray loopContent variables [] i n loopResult = Some loopResult"
| "loop_iterations pv namesArray loopContent variables ((key, val) # rest) i n loopResult =
     (case pv loopContent (loopVariables variables namesArray key val i n) of
        None \<Rightarrow> None
      | Some processedContent \<Rightarrow>
          if str_includes processedContent ''{{break}}'' then Some loopResult
          else if str_includes processedContent ''{{continue}}'' then
            loop_iterations pv namesArray loopContent variables rest (Suc i) n loopResult
          else
            loop_iterations pv namesArray loopContent variables rest (Suc i) n
              (loopResult @ processedContent))"

definition isEmpty :: "jsval \<Rightarrow> bool" where
  "isEmpty collection = (\<not> truthy collection \<or> collection = JArr [] \<or> collection = JObj [])"

definition processLoop ::
  "(string \<Rightarrow> vars \<Rightarrow> string option) \<Rightarrow> host \<Rightarrow> string list \<Rightarrow> string \<Rightarrow> string \<Rightarrow>
   string option \<Rightarrow> vars \<Rightarrow> string" where
  "processLoop pv h namesArray collectionName loopContent emptyContent variables =
     (if list_ex (\<lambda>name. name \<in> set unsafeKeys) namesArray then []
      else
        let collection = evaluateExpression h collectionName variables in
        if isEmpty collection then
          (if or_empty emptyContent \<noteq> [] then
             (case pv (or_empty emptyContent) variables of None \<Rightarrow> [] | Some r \<Rightarrow> r)
           else [])
        else
          (case (if 1 < length namesArray then Some (object_entries collection)
                 else indexed_entries collection) of
             None \<Rightarrow> []
           | Some entries \<Rightarrow>
               (case loop_iterations pv namesArray loopContent variables entries 0 (length entries) [] of
                  None \<Rightarrow> []
                | Some loopResult \<Rightarrow> loopResult)))"

definition processLoops ::
  "(string \<Rightarrow> vars \<Rightarrow> string option) \<Rightarrow> host \<Rightarrow> string \<Rightarrow> vars \<Rightarrow> string" where
  "processLoops pv h content variables =
     (let result = rx_replace forKeyValueRegex 5 content
            (\<lambda>m gs. processLoop pv h [or_empty (group gs 0), or_empty (group gs 1)]
                       (or_empty (group gs 2)) (or_empty (group gs 3)) (group gs 4) variables)
      in rx_replace forRegex 4 result
            (\<lambda>m gs. processLoop pv h [or_empty (group gs 0)]
                       (or_empty (group gs 1)) (or_empty (group gs 2)) (group gs 3) variables))"

subsection \<open>Conditionals\<close>

definition elseIfBranch :: "host \<Rightarrow> vars \<Rightarrow> string \<Rightarrow> string option" where
  \<comment> \<open>the content of the first \<open>else if\<close> that \<open>elseIfRegex\<close> finds in the blocks and whose
      condition holds\<close>
  "elseIfBranch h variables elseIfBlocks =
     (if elseIfBlocks = [] then None
      else case find (\<lambda>(a, e, c). truthy (evaluateExpression h (or_empty (group (groups elseIfBlocks c) 0)) variables))
                     (rx_match_all elseIfRegex 2 elseIfBlocks) of
             None \<Rightarrow> None
           | Some (a, e, c) \<Rightarrow> Some (or_empty (group (groups elseIfBlocks c) 1)))"

definition conditionalBranch :: "host \<Rightarrow> vars \<Rightarrow> string option list \<Rightarrow> string" where
  \<comment> \<open>the callback of the replacement: the groups are the condition, the content, the
      \<open>else if\<close> blocks and the \<open>else\<close> content\<close>
  "conditionalBranch h variables gs =
     (let ifCondition = or_empty (group gs 0); ifContent = or_empty (group gs 1);
          elseIfBlocks = or_empty (group gs 2); elseContent = group gs 3
      in if truthy (evaluateExpression h ifCondition variables) then ifContent
         else case elseIfBranch h variables elseIfBlocks of
                Some elseIfContent \<Rightarrow> elseIfContent
              | None \<Rightarrow> or_empty elseContent)"

definition hasNestedIf :: "string option list \<Rightarrow> bool" where
  "hasNestedIf gs =
     str_includes (or_empty (group gs 1) @ or_empty (group gs 2) @ or_empty (group gs 3)) ''{{if''"

function conditionals_loop :: "host \<Rightarrow> vars \<Rightarrow> string \<Rightarrow> bool \<Rightarrow> nat \<Rightarrow> string" where
  "conditionals_loop h variables result hasChanges iterationCount =
     (if hasChanges \<and> iterationCount < 20 then
        conditionals_loop h variables
          (rx_replace IfRegex 4 result (\<lambda>m gs. conditionalBranch h variables gs))
          (list_ex (\<lambda>(a, e, c). hasNestedIf (groups result c)) (rx_match_all IfRegex 4 result))
          (Suc iterationCount)
      else result)"
  by pat_completeness auto
termination
  by (relation "measure (\<lambda>(h, variables, result, hasChanges, iterationCount). 20 - iterationCount)") auto

declare conditionals_loop.simps [simp del]

definition processConditionals :: "host \<Rightarrow> string \<Rightarrow> vars \<Rightarrow> string" where
  "processConditionals h content variables = conditionals_loop h variables content True 0"

subsection \<open>User functions\<close>

definition executeUserFunction :: "host \<Rightarrow> string \<Rightarrow> jsval list \<Rightarrow> jsval" where
  \<comment> \<open>a function that is not registered, or one that throws, gives \<open>null\<close>\<close>
  "executeUserFunction h funcName args =
     (case user_functions h funcName of
        None \<Rightarrow> JNull
      | Some f \<Rightarrow> (case f args of Inl err \<Rightarrow> JNull | Inr v \<Rightarrow> v))"

definition plainArg :: "host \<Rightarrow> vars \<Rightarrow> string \<Rightarrow> jsval" where
  \<comment> \<open>literals, numbers and bare names\<close>
  "plainArg h variables arg =
     (if arg = ''true'' then JBool True
      else if arg = ''false'' then JBool False
      else if arg = ''null'' then JNull
      else if arg = ''undefined'' then JUndefined
      else if to_number h arg \<noteq> JNaN then to_number h arg
      else if arg \<in> set unsafeKeys then JUndefined
      else if obj_get variables arg \<noteq> JUndefined then obj_get variables arg
      else JStr arg)"

definition cleanArg :: "host \<Rightarrow> vars \<Rightarrow> string \<Rightarrow> jsval" where
  \<comment> \<open>one trimmed argument; \<open>JUndefined\<close> is filtered out afterwards\<close>
  "cleanArg h variables arg =
     (case rx_first quotedArgRegex 1 arg of
        Some (a, e, c) \<Rightarrow> JStr (or_empty (group (groups arg c) 0))
      | None \<Rightarrow>
          (case rx_first varArgRegex 1 arg of
             Some (a, e, c) \<Rightarrow>
               let varName = or_empty (group (groups arg c) 0) in
               if varName \<in> set unsafeKeys then JUndefined
               else if obj_get variables varName \<noteq> JUndefined then obj_get variables varName
               else plainArg h variables arg
           | None \<Rightarrow> plainArg h variables arg))"

definition userFunctionCall :: "host \<Rightarrow> vars \<Rightarrow> string \<Rightarrow> string \<Rightarrow> string" where
  "userFunctionCall h variables funcCall argsStr =
     (if funcCall \<in> set unsafeKeys then []
      else
        let cleanedArgs = filter (\<lambda>v. v \<noteq> JUndefined)
              (map (cleanArg h variables)
                 (filter (\<lambda>arg. arg \<noteq> []) (map trim (split_on CHR '','' argsStr))))
        in safeToString h (executeUserFunction h funcCall cleanedArgs))"

definition processUserFunctions :: "host \<Rightarrow> string \<Rightarrow> vars \<Rightarrow> string" where
  "processUserFunctions h content variables =
     rx_replace userFuncRegex 2 content
       (\<lambda>m gs. userFunctionCall h variables (or_empty (group gs 0)) (or_empty (group gs 1)))"

subsection \<open>Variables and expressions\<close>

definition replaceVariable :: "host \<Rightarrow> string \<Rightarrow> string \<times> jsval \<Rightarrow> string" where
  \<comment> \<open>one step of the \<open>forEach\<close> over the entries of the context\<close>
  "replaceVariable h result entry =
     (case entry of (key, val) \<Rightarrow>
        if key \<in> set unsafeKeys then result
        else rx_replace_str (variableRegex key) result (safeToString h val))"

definition isStructuralTag :: "string \<Rightarrow> bool" where
  "isStructuralTag trimmedExpr =
     (starts_with trimmedExpr ''if '' \<or> trimmedExpr = ''else'' \<or> trimmedExpr = ''endif'' \<or>
      starts_with trimmedExpr ''for '' \<or> trimmedExpr = ''endfor'' \<or> trimmedExpr = ''empty'' \<or>
      trimmedExpr = ''break'' \<or> trimmedExpr = ''continue'')"

definition expressionValue :: "host \<Rightarrow> vars \<Rightarrow> string \<Rightarrow> string \<Rightarrow> string" where
  "expressionValue h variables m expression =
     (if trim expression = [] then []
      else if str_includes expression ''user:'' then m
      else if isStructuralTag (trim expression) then m
      else safeToString h (evaluateExpression h (trim expression) variables))"

definition processVariablesAndExpressions :: "host \<Rightarrow> string \<Rightarrow> vars \<Rightarrow> string" where
  "processVariablesAndExpressions h content variables =
     (let result1 = rx_replace quotedVarRegex 1 content
            (\<lambda>m gs. ''{{'' @ or_empty (group gs 0) @ ''}}'');
          result2 = rx_replace objectPropertyRegex 1 result1
            (\<lambda>m gs. safeToString h (getValueByPath variables (or_empty (group gs 0))));
          result3 = foldl (replaceVariable h) result2 variables
      in rx_replace expressionRegex 1 result3
            (\<lambda>m gs. expressionValue h variables m (or_empty (group gs 0))))"

subsection \<open>The fixpoint iteration\<close>

definition hasUnprocessedTags :: "string \<Rightarrow> bool" where
  "hasUnprocessedTags content =
     list_ex (\<lambda>(regex, n). rx_test regex n content)
       [(forRegex, 4), (forKeyValueRegex, 5), (IfRegex, 4), (userFuncRegex, 2),
        (expressionRegex, 1), (objectPropertyRegex, 1)]"

type_synonym handler = "string \<Rightarrow> vars \<Rightarrow> string"

definition run_handlers :: "handler list \<Rightarrow> vars \<Rightarrow> string \<Rightarrow> string" where
  \<comment> \<open>\<open>for (const handler of processingPhases) result = handler(result, variables)\<close>\<close>
  "run_handlers handlers variables result = foldl (\<lambda>r handler. handler r variables) result handlers"

text \<open>
  The \<open>do ... while\<close> loop: \<open>iteration\<close> passes have been run and gave \<open>result\<close>; the
  function returns the final text and the number of passes.
\<close>

function iterate_passes ::
  "handler list \<Rightarrow> (string \<Rightarrow> bool) \<Rightarrow> vars \<Rightarrow> nat \<Rightarrow> string \<Rightarrow> nat \<Rightarrow> string \<times> nat" where
  "iterate_passes handlers probe variables maxIterations previousResult iteration =
     (let result = run_handlers handlers variables previousResult in
      if result \<noteq> previousResult \<and> Suc iteration < maxIterations \<and> probe result
      then iterate_passes handlers probe variables maxIterations result (Suc iteration)
      else (result, Suc iteration))"
  by pat_completeness auto
termination
  by (relation "measure (\<lambda>(handlers, probe, variables, maxIterations, previousResult, iteration).
                   maxIterations - iteration)") auto

declare iterate_passes.simps [simp del]

record outcome =
  text_of :: string
  passes_of :: nat
  warned :: bool

definition processIteratively_with ::
  "handler list \<Rightarrow> (string \<Rightarrow> bool) \<Rightarrow> string \<Rightarrow> vars \<Rightarrow> nat \<Rightarrow> outcome" where
  \<comment> \<open>\<open>_processIteratively\<close> over any array of handlers and any probe; the warning is the
      line written to the console when the counter has reached \<open>maxIterations\<close>\<close>
  "processIteratively_with handlers probe content variables maxIterations =
     (case iterate_passes handlers probe variables maxIterations content 0 of
        (result, iteration) \<Rightarrow>
          \<lparr>text_of = result, passes_of = iteration, warned = (maxIterations \<le> iteration)\<rparr>)"

definition processingPhases :: "(string \<Rightarrow> vars \<Rightarrow> string option) \<Rightarrow> host \<Rightarrow> handler list" where
  "processingPhases pv h =
     [processLoops pv h, processConditionals h, processUserFunctions h, processVariablesAndExpressions h]"

definition processIteratively ::
  "(string \<Rightarrow> vars \<Rightarrow> string option) \<Rightarrow> host \<Rightarrow> string \<Rightarrow> vars \<Rightarrow> nat \<Rightarrow> outcome" where
  "processIteratively pv h content variables maxIterations =
     processIteratively_with (processingPhases pv h) hasUnprocessedTags content variables maxIterations"

text \<open>
  \<open>processVariables\<close> and the loops call each other.  \<open>depth\<close> is the room left on the
  call stack, counted in nested calls of \<open>processVariables\<close>: with none left the call
  fails (\<open>None\<close>), which the enclosing loop catches.
\<close>

primrec processVariables :: "nat \<Rightarrow> host \<Rightarrow> string \<Rightarrow> vars \<Rightarrow> string option" where
  "processVariables 0 = (\<lambda>h content requestVariables. None)"
| "processVariables (Suc depth) = (\<lambda>h content requestVariables.
     Some (text_of (processIteratively (processVariables depth h) h content
                      (obj_spread (user_variables h) requestVariables) 10)))"

section \<open>Paths and files\<close>

text \<open>
  The functions of the host's \<open>path\<close> module that the resolver calls, for POSIX paths.
  Every path they receive here is absolute, except the second argument of a join or a
  resolve, which is the text of the directive.
\<close>

fun normalize_segments :: "string list \<Rightarrow> string list \<Rightarrow> string list" where
  \<comment> \<open>the segments of an absolute path without \<open>.\<close>, empty segments and \<open>..\<close>: \<open>..\<close> removes
      the segment before it, and is dropped at the root; the first argument is the
      result so far, the last segment first\<close>
  "normalize_segments kept [] = rev kept"
| "normalize_segments kept (seg # rest) =
     (if seg = [] \<or> seg = ''.'' then normalize_segments kept rest
      else if seg = ''..'' then normalize_segments (case kept of [] \<Rightarrow> [] | d # ds \<Rightarrow> ds) rest
      else normalize_segments (seg # kept) rest)"

definition path_of_segments :: "string list \<Rightarrow> string" where
  "path_of_segments segs = (if segs = [] then ''/'' else concat (map (\<lambda>seg. CHR ''/'' # seg) segs))"

definition path_resolve :: "string \<Rightarrow> string" where
  \<comment> \<open>\<open>path.resolve(p)\<close> for an absolute \<open>p\<close>: normalised, without a trailing slash\<close>
  "path_resolve p = path_of_segments (normalize_segments [] (split_on CHR ''/'' p))"

definition path_isAbsolute :: "string \<Rightarrow> bool" where
  "path_isAbsolute p = starts_with p ''/''"

definition path_resolve2 :: "string \<Rightarrow> string \<Rightarrow> string" where
  \<comment> \<open>\<open>path.resolve(dir, p)\<close> for an absolute \<open>dir\<close>: an absolute \<open>p\<close> stands alone\<close>
  "path_resolve2 dir p = (if path_isAbsolute p then path_resolve p else path_resolve (dir @ ''/'' @ p))"

definition path_join :: "string \<Rightarrow> string \<Rightarrow> string" where
  \<comment> \<open>\<open>path.join(dir, p)\<close> for an absolute \<open>dir\<close>: the normalised \<open>dir/p\<close>, which keeps a
      trailing slash\<close>
  "path_join dir p =
     (let joined = (if p = [] then dir else dir @ ''/'' @ p);
          segs = normalize_segments [] (split_on CHR ''/'' joined)
      in if segs \<noteq> [] \<and> joined \<noteq> [] \<and> last joined = CHR ''/'' then path_of_segments segs @ ''/''
         else path_of_segments segs)"

definition path_dirname :: "string \<Rightarrow> string" where
  \<comment> \<open>\<open>path.dirname(p)\<close> for a normalised absolute \<open>p\<close>\<close>
  "path_dirname p = path_of_segments (butlast (filter (\<lambda>seg. seg \<noteq> []) (split_on CHR ''/'' p)))"

fun drop_common :: "string list \<Rightarrow> string list \<Rightarrow> string list \<times> string list" where
  "drop_common (a # as) (b # bs) = (if a = b then drop_common as bs else (a # as, b # bs))"
| "drop_common as bs = (as, bs)"

definition join_with_slash :: "string list \<Rightarrow> string" where
  "join_with_slash segs = (case segs of [] \<Rightarrow> [] | s # ss \<Rightarrow> s @ concat (map (\<lambda>seg. CHR ''/'' # seg) ss))"

definition path_relative :: "string \<Rightarrow> string \<Rightarrow> string" where
  \<comment> \<open>\<open>path.relative(from, to)\<close> for absolute paths: one \<open>..\<close> for every segment of \<open>from\<close>
      after the common segments, then the remaining segments of \<open>to\<close>\<close>
  "path_relative from to =
     (case drop_common (normalize_segments [] (split_on CHR ''/'' from))
                       (normalize_segments [] (split_on CHR ''/'' to)) of
        (up, down) \<Rightarrow> join_with_slash (map (\<lambda>seg. ''..'') up @ down))"

record env =
  cwd :: string
  read_file :: "string \<Rightarrow> string option"

definition templatesAbsDir :: "env \<Rightarrow> string" where
  "templatesAbsDir e = path_join (cwd e) ''templates''"

definition isSafePath :: "string \<Rightarrow> string \<Rightarrow> bool" where
  "isSafePath requestedPath baseDir = starts_with (path_resolve requestedPath) (path_resolve baseDir)"

section \<open>The registry of included files\<close>

text \<open>
  The module keeps one \<open>Set\<close> object, \<open>includedFiles\<close>, and the flag \<open>isCompilationMode\<close>.
  \<open>Set\<close> objects live in a store, so that two references to one object can be told
  from two objects with the same elements: a \<open>Set\<close> is the list of its elements in
  insertion order.  \<open>console\<close> collects the warnings of the resolver.
\<close>

datatype warning =
    UnsafePath string
  | CyclicInclude string
  | SelfInclude string
  | IncludeFailed string

type_synonym ref = nat

record engine =
  store :: "ref \<Rightarrow> string list"
  next_ref :: ref
  isCompilationMode :: bool
  console :: "warning list"

definition includedFiles :: ref where
  "includedFiles = 0"

definition init_engine :: engine where
  \<comment> \<open>the module after loading: the registry is the only \<open>Set\<close>, and it is empty\<close>
  "init_engine = \<lparr>store = (\<lambda>r. []), next_ref = 1, isCompilationMode = False, console = []\<rparr>"

definition set_add :: "ref \<Rightarrow> string \<Rightarrow> engine \<Rightarrow> engine" where
  \<comment> \<open>\<open>s.add(x)\<close>\<close>
  "set_add r x st = st\<lparr>store := (store st)(r := (if x \<in> set (store st r) then store st r else store st r @ [x]))\<rparr>"

definition set_delete :: "ref \<Rightarrow> string \<Rightarrow> engine \<Rightarrow> engine" where
  \<comment> \<open>\<open>s.delete(x)\<close>\<close>
  "set_delete r x st = st\<lparr>store := (store st)(r := filter (\<lambda>y. y \<noteq> x) (store st r))\<rparr>"

definition set_clear :: "ref \<Rightarrow> engine \<Rightarrow> engine" where
  \<comment> \<open>\<open>s.clear()\<close>\<close>
  "set_clear r st = st\<lparr>store := (store st)(r := [])\<rparr>"

definition set_copy :: "ref \<Rightarrow> engine \<Rightarrow> ref \<times> engine" where
  \<comment> \<open>\<open>new Set(s)\<close>: a new object with the elements of \<open>s\<close>\<close>
  "set_copy r st = (next_ref st, st\<lparr>store := (store st)(next_ref st := store st r), next_ref := Suc (next_ref st)\<rparr>)"

definition setCompilationMode :: "bool \<Rightarrow> engine \<Rightarrow> engine" where
  "setCompilationMode mode st =
     (let st' = st\<lparr>isCompilationMode := mode\<rparr> in if mode then set_clear includedFiles st' else st')"

definition getIncludedFiles :: "engine \<Rightarrow> ref \<times> engine" where
  "getIncludedFiles st = set_copy includedFiles st"

definition warn :: "warning \<Rightarrow> engine \<Rightarrow> engine" where
  "warn w st = st\<lparr>console := console st @ [w]\<rparr>"

section \<open>The include resolver\<close>

record include_match =
  match_text :: string
  match_fileName :: string
  match_index :: nat

definition include_matches :: "string \<Rightarrow> include_match list" where
  \<comment> \<open>the directives of the content in document order; a directive between two quotes is
      skipped\<close>
  "include_matches content =
     map (\<lambda>(a, e, c). \<lparr>match_text = slice content a e,
                        match_fileName = trim (if or_empty (group (groups content c) 3) \<noteq> []
                                         then or_empty (group (groups content c) 3)
                                         else or_empty (group (groups content c) 1)),
                        match_index = a\<rparr>)
       (filter (\<lambda>(a, e, c). \<not> (or_empty (group (groups content c) 0) \<noteq> []
                                \<and> or_empty (group (groups content c) 2) \<noteq> []))
          (rx_match_all includeRegex 4 content))"

definition includePath_of :: "env \<Rightarrow> string \<Rightarrow> string \<Rightarrow> string" where
  "includePath_of e currentFile fileName =
     (if path_isAbsolute fileName then path_join (templatesAbsDir e) fileName
      else
        let currentDir = (if currentFile \<noteq> [] then path_dirname (path_join (templatesAbsDir e) currentFile)
                          else templatesAbsDir e)
        in path_resolve2 currentDir fileName)"

text \<open>
  What one directive is replaced with.  \<open>self\<close> is \<open>processIncludes\<close>, called on the content
  of the file that was read; it returns \<open>None\<close> when it does not return.
\<close>

definition include_fragment ::
  "(string \<Rightarrow> string \<Rightarrow> string set \<Rightarrow> engine \<Rightarrow> (string \<times> engine) option) \<Rightarrow>
   env \<Rightarrow> string \<Rightarrow> string set \<Rightarrow> string \<Rightarrow> engine \<Rightarrow> (string \<times> engine) option" where
  "include_fragment self e currentFile inclusionStack fileName st =
     (let includePath = includePath_of e currentFile fileName in
      if \<not> isSafePath includePath (templatesAbsDir e) then Some ([], warn (UnsafePath fileName) st)
      else
        let relativeIncludePath = path_relative (templatesAbsDir e) includePath in
        if includePath \<in> inclusionStack then Some ([], warn (CyclicInclude fileName) st)
        else if relativeIncludePath = currentFile then Some ([], warn (SelfInclude fileName) st)
        else
          (case read_file e includePath of
             None \<Rightarrow> Some ([], warn (IncludeFailed fileName) st)
           | Some includedContent \<Rightarrow>
               self includedContent relativeIncludePath (insert includePath inclusionStack)
                 (if isCompilationMode st then set_add includedFiles relativeIncludePath st else st)))"

fun include_parts ::
  "(string \<Rightarrow> string \<Rightarrow> string set \<Rightarrow> engine \<Rightarrow> (string \<times> engine) option) \<Rightarrow>
   env \<Rightarrow> string \<Rightarrow> string \<Rightarrow> string set \<Rightarrow> include_match list \<Rightarrow> nat \<Rightarrow> string list \<Rightarrow> engine \<Rightarrow>
   (string list \<times> nat \<times> engine) option" where
  "include_parts self e content currentFile inclusionStack [] lastIndex parts st = Some (parts, lastIndex, st)"
| "include_parts self e content currentFile inclusionStack (m # ms) lastIndex parts st =
     (case include_fragment self e currentFile inclusionStack (match_fileName m) st of
        None \<Rightarrow> None
      | Some (fragment, st') \<Rightarrow>
          include_parts self e content currentFile inclusionStack ms (match_index m)
            (parts @ [slice content (match_index m + length (match_text m)) lastIndex, fragment]) st')"

text \<open>
  \<open>processIncludes\<close> calls itself on every file it reads, to any depth; \<open>depth\<close> bounds the
  nesting, and \<open>None\<close> says that the bound was not enough.  The matches are sorted by
  descending index: they are found in ascending order, so this is their reversal.
\<close>

primrec processIncludes ::
  "nat \<Rightarrow> env \<Rightarrow> string \<Rightarrow> string \<Rightarrow> string set \<Rightarrow> engine \<Rightarrow> (string \<times> engine) option" where
  "processIncludes 0 = (\<lambda>e content currentFile inclusionStack st. None)"
| "processIncludes (Suc depth) = (\<lambda>e content currentFile inclusionStack st.
     let matches = include_matches content in
     if matches = [] then Some (content, st)
     else
       (case include_parts (processIncludes depth e) e content currentFile inclusionStack
               (rev matches) (length content) [] st of
          None \<Rightarrow> None
        | Some (parts, lastIndex, st') \<Rightarrow>
            Some (concat (rev (parts @ [slice content 0 lastIndex])), st')))"

section \<open>The structure validator\<close>

text \<open>
  A structure error is the message the validator pushes: its kind, the line, and the
  names it mentions.  The scan is the \<open>for\<close> loop over the positions of the content;
  the errors are listed in the order they are pushed, the unclosed blocks last.
\<close>

datatype tag_type = OpenTag | CloseTag

datatype structure_error =
    MissingBracket tag_type nat
  | EmptyName tag_type nat
  | IllegalChars nat string
  | ExtraClose nat string
  | Mismatch nat string string
  | Unclosed nat string

datatype parsed_tag =
    TagB structure_error
  | TagC structure_error nat
  | TagName string nat

definition invalidChars :: string where
  "invalidChars = ''[]{}~''"

definition parseTag :: "string \<Rightarrow> nat \<Rightarrow> tag_type \<Rightarrow> nat \<Rightarrow> parsed_tag" where
  "parseTag content i tagType newLine =
     (case index_of content '']'' i of
        None \<Rightarrow> TagB (MissingBracket tagType newLine)
      | Some endIndex \<Rightarrow>
          let rawName = slice content (i + 2) endIndex in
          if trim rawName = [] then TagC (EmptyName tagType newLine) endIndex
          else
            let foundInvalidChars = filter (\<lambda>c. c \<in> set rawName) invalidChars in
            if foundInvalidChars \<noteq> [] then TagC (IllegalChars newLine foundInvalidChars) endIndex
            else TagName (trim rawName) endIndex)"

definition unclosed :: "(string \<times> nat) list \<Rightarrow> structure_error list" where
  "unclosed stack = map (\<lambda>(name, line). Unclosed line name) stack"


lemma index_from_ge: "index_from rest pat i = Some e \<Longrightarrow> i \<le> e"
  by (induction rest arbitrary: i) (auto split: if_splits dest: Suc_leD)

lemma index_of_ge: "index_of s pat i = Some e \<Longrightarrow> i \<le> length s \<Longrightarrow> i \<le> e"
  by (auto simp: index_of_def min_def dest: index_from_ge split: if_splits)

lemma parseTag_C_ge: "parseTag content i t l = TagC err e \<Longrightarrow> i < length content \<Longrightarrow> i \<le> e"
  by (auto simp: parseTag_def Let_def split: option.splits if_splits dest: index_of_ge)

lemma parseTag_Name_ge: "parseTag content i t l = TagName name e \<Longrightarrow> i < length content \<Longrightarrow> i \<le> e"
  by (auto simp: parseTag_def Let_def split: option.splits if_splits dest: index_of_ge)

function validate_loop :: "string \<Rightarrow> nat \<Rightarrow> nat \<Rightarrow> (string \<times> nat) list \<Rightarrow> structure_error list" where
  "validate_loop content i line0 stack =
     (if length content \<le> i then unclosed stack
      else
        let line = (if content ! i = CHR 0x0A then Suc line0 else line0) in
        if starts_with (drop i content) ''[!'' then
          (case parseTag content i OpenTag line of
             TagB err \<Rightarrow> err # unclosed stack
           | TagC err endIndex \<Rightarrow> err # validate_loop content (Suc endIndex) line stack
           | TagName name endIndex \<Rightarrow> validate_loop content (Suc endIndex) line (stack @ [(name, line)]))
        else if starts_with (drop i content) ''[~'' then
          (case parseTag content i CloseTag line of
             TagB err \<Rightarrow> err # unclosed stack
           | TagC err endIndex \<Rightarrow> err # validate_loop content (Suc endIndex) line stack
           | TagName name endIndex \<Rightarrow>
               if stack = [] then ExtraClose line name # validate_loop content (Suc endIndex) line stack
               else if fst (last stack) = name then validate_loop content (Suc endIndex) line (butlast stack)
               else Mismatch line (fst (last stack)) name # validate_loop content (Suc endIndex) line stack)
        else validate_loop content (Suc i) line stack)"
  by pat_completeness auto
termination
  by (relation "measure (\<lambda>(content, i, line0, stack). length content - i)")
     (auto dest!: parseTag_C_ge parseTag_Name_ge)

declare validate_loop.simps [simp del]

definition validateTemplateStructure :: "string \<Rightarrow> structure_error list" where
  "validateTemplateStructure content = validate_loop content 0 1 []"

text \<open>
  The scan the specification describes, which never stops early: after a tag without
  closing bracket it records the error and goes on with the next position.
\<close>

function validate_all_loop :: "string \<Rightarrow> nat \<Rightarrow> nat \<Rightarrow> (string \<times> nat) list \<Rightarrow> structure_error list" where
  "validate_all_loop content i line0 stack =
     (if length content \<le> i then unclosed stack
      else
        let line = (if content ! i = CHR 0x0A then Suc line0 else line0) in
        if starts_with (drop i content) ''[!'' then
          (case parseTag content i OpenTag line of
             TagB err \<Rightarrow> err # validate_all_loop content (Suc i) line stack
           | TagC err endIndex \<Rightarrow> err # validate_all_loop content (Suc endIndex) line stack
           | TagName name endIndex \<Rightarrow> validate_all_loop content (Suc endIndex) line (stack @ [(name, line)]))
        else if starts_with (drop i content) ''[~'' then
          (case parseTag content i CloseTag line of
             TagB err \<Rightarrow> err # validate_all_loop content (Suc i) line stack
           | TagC err endIndex \<Rightarrow> err # validate_all_loop content (Suc endIndex) line stack
           | TagName name endIndex \<Rightarrow>
               if stack = [] then ExtraClose line name # validate_all_loop content (Suc endIndex) line stack
               else if fst (last stack) = name then validate_all_loop content (Suc endIndex) line (butlast stack)
               else Mismatch line (fst (last stack)) name # validate_all_loop content (Suc endIndex) line stack)
        else validate_all_loop content (Suc i) line stack)"
  by pat_completeness auto
termination
  by (relation "measure (\<lambda>(content, i, line0, stack). length content - i)")
     (auto dest!: parseTag_C_ge parseTag_Name_ge)

declare validate_all_loop.simps [simp del]

definition validate_all :: "string \<Rightarrow> structure_error list" where
  "validate_all content = validate_all_loop content 0 1 []"

fun is_missing_bracket :: "structure_error \<Rightarrow> bool" where
  "is_missing_bracket (MissingBracket t l) = True"
| "is_missing_bracket e = False"

section \<open>Blocks and the compositor\<close>

record block =
  b_startIndex :: nat
  b_endIndex :: nat
  b_innerContent :: string

type_synonym blocks = "(string \<times> block list) list"

text \<open>
  \<open>blocks\<close> is the object that \<open>_findBlockPositions\<close> fills: the names in the order of their
  first block, each with its blocks in document order.  The object is a plain one, so
  under a name that every object inherits the source finds a function instead of an array,
  and the \<open>push\<close> on it throws a TypeError.
\<close>

fun blocks_push :: "blocks \<Rightarrow> string \<Rightarrow> block \<Rightarrow> blocks" where
  \<comment> \<open>\<open>if (!blocks[name]) blocks[name] = []; blocks[name].push(b)\<close> for a name that is not
      inherited\<close>
  "blocks_push [] name b = [(name, [b])]"
| "blocks_push ((n, bs) # rest) name b =
     (if n = name then (n, bs @ [b]) # rest else (n, bs) # blocks_push rest name b)"

datatype js_error = TypeError

lemma index_from_bound: "index_from rest pat i = Some e \<Longrightarrow> e + length pat \<le> i + length rest"
proof (induction rest arbitrary: i)
  case Nil
  then show ?case by (auto split: if_splits)
next
  case (Cons c cs)
  have "starts_with xs ys \<Longrightarrow> length ys \<le> length xs" for xs ys :: string
    by (induction xs ys rule: starts_with.induct) auto
  from this[of "c # cs" pat] Cons show ?case
    by (fastforce split: if_splits)
qed

lemma index_of_bound: "index_of s pat i = Some e \<Longrightarrow> e + length pat \<le> length s"
  by (auto simp: index_of_def min_def dest!: index_from_bound split: if_splits)

function find_blocks_loop :: "string \<Rightarrow> nat \<Rightarrow> blocks \<Rightarrow> js_error + blocks" where
  "find_blocks_loop content i blocks =
     (if length content \<le> i then Inr blocks
      else
        case index_of content ''[!'' i of
          None \<Rightarrow> Inr blocks
        | Some startIndex \<Rightarrow>
            (case index_of content '']'' startIndex of
               None \<Rightarrow> Inr blocks
             | Some openEndIndex \<Rightarrow>
                 let openName = trim (slice content (startIndex + 2) openEndIndex);
                     closeTag = ''[~'' @ openName @ '']''
                 in case index_of content closeTag (openEndIndex + 1) of
                      None \<Rightarrow> find_blocks_loop content (openEndIndex + 1) blocks
                    | Some closeStartIndex \<Rightarrow>
                        let endIndex = closeStartIndex + length closeTag in
                        if openName \<in> set object_prototype_keys then Inl TypeError
                        else find_blocks_loop content endIndex
                               (blocks_push blocks openName
                                  \<lparr>b_startIndex = startIndex, b_endIndex = endIndex,
                                   b_innerContent = slice content (openEndIndex + 1) closeStartIndex\<rparr>)))"
  by pat_completeness auto
termination
proof (relation "measure (\<lambda>(content, i, blocks). length content - i)", goal_cases)
  case 1
  then show ?case by simp
next
  case (2 content i blocks startIndex openEndIndex)
  from 2(1,2) have a: "i \<le> startIndex" by (auto dest: index_of_ge)
  from 2(2) have "startIndex \<le> length content" by (auto dest: index_of_bound)
  with 2(3) have b: "startIndex \<le> openEndIndex" by (auto dest: index_of_ge)
  from a b 2(1) show ?case by simp
next
  case (3 content i blocks startIndex openEndIndex openName closeTag closeStartIndex endIndex)
  from 3(1,2) have a: "i \<le> startIndex" by (auto dest: index_of_ge)
  from 3(2) have "startIndex \<le> length content" by (auto dest: index_of_bound)
  with 3(3) have b: "startIndex \<le> openEndIndex" by (auto dest: index_of_ge)
  from 3(3) have "openEndIndex + 1 \<le> length content" by (auto dest: index_of_bound)
  with 3(6) have c: "openEndIndex + 1 \<le> closeStartIndex" by (auto dest: index_of_ge)
  from a b c 3(1,7) show ?case by simp
qed

declare find_blocks_loop.simps [simp del]

definition findBlockPositions :: "string \<Rightarrow> js_error + blocks" where
  "findBlockPositions content = find_blocks_loop content 0 []"

definition cleanTemplateTags :: "string \<Rightarrow> string" where
  "cleanTemplateTags html = rx_replace_str templateTagRegex html []"

definition to_lower :: "char \<Rightarrow> char" where
  "to_lower c = (let n = of_char c :: nat in if 65 \<le> n \<and> n \<le> 90 then char_of (n + 32) else c)"

definition ensureDoctypeFirst :: "string \<Rightarrow> string" where
  "ensureDoctypeFirst html =
     (if starts_with (map to_lower (trim html)) ''<!doctype'' then html
      else ''<!DOCTYPE html>'' @ [CHR 0x0A] @ html)"

record replacement =
  r_innerContent :: string
  r_startIndex :: nat
  r_endIndex :: nat

definition collect_replacements :: "blocks \<Rightarrow> blocks \<Rightarrow> replacement list" where
  \<comment> \<open>the loop over the entries of the page's blocks; a name the base does not have gives
      the empty array\<close>
  "collect_replacements baseBlocks templateBlocks =
     concat (map (\<lambda>(name, templateBlockArray).
        let baseBlockArray = (case map_of baseBlocks name of Some arr \<Rightarrow> arr | None \<Rightarrow> []);
            minLength = min (length templateBlockArray) (length baseBlockArray)
        in map (\<lambda>i. \<lparr>r_innerContent = b_innerContent (templateBlockArray ! i),
                       r_startIndex = b_startIndex (baseBlockArray ! i),
                       r_endIndex = b_endIndex (baseBlockArray ! i)\<rparr>) [0..<minLength])
        templateBlocks)"

definition apply_replacement :: "string \<Rightarrow> replacement \<Rightarrow> string" where
  "apply_replacement finalHtml r =
     take (r_startIndex r) finalHtml @ r_innerContent r @ drop (r_endIndex r) finalHtml"

definition renderTemplateContent :: "string \<Rightarrow> string \<Rightarrow> js_error + string" where
  "renderTemplateContent baseContent templateContent =
     (case findBlockPositions baseContent of
        Inl err \<Rightarrow> Inl err
      | Inr baseBlocks \<Rightarrow>
          (case findBlockPositions templateContent of
             Inl err \<Rightarrow> Inl err
           | Inr templateBlocks \<Rightarrow>
               let replacements = sort_key (\<lambda>r. - int (r_startIndex r))
                                    (collect_replacements baseBlocks templateBlocks);
                   finalHtml = foldl apply_replacement baseContent replacements
               in Inr (ensureDoctypeFirst (cleanTemplateTags finalHtml))))"

text \<open>
  The merge the specification describes: every paired span of the base is replaced by
  the inner content paired with it, all at once, and the text outside these spans is
  kept.
\<close>

definition merge_blocks :: "string \<Rightarrow> blocks \<Rightarrow> blocks \<Rightarrow> string" where
  "merge_blocks baseContent baseBlocks templateBlocks =
     splice_matches baseContent 0
       (map (\<lambda>r. (r_startIndex r, r_endIndex r, r_innerContent r))
          (sort_key r_startIndex (collect_replacements baseBlocks templateBlocks)))"

section \<open>A host for concrete runs\<close>

text \<open>
  A host small enough to evaluate: its \<open>vm_run\<close> knows the two comparisons \<open>1>2\<close> and
  \<open>2>1\<close> and looks a single identifier up in the context, and throws a ReferenceError
  on anything else; strings print as themselves.
\<close>

definition demo_vm :: "string \<Rightarrow> vars \<Rightarrow> string + jsval" where
  "demo_vm code context =
     (if code = ''(1>2)'' then Inr (JBool False)
      else if code = ''(2>1)'' then Inr (JBool True)
      else case map_of context (butlast (tl code)) of
             Some v \<Rightarrow> Inr v
           | None \<Rightarrow> Inl ''ReferenceError'')"

definition demo_host :: host where
  "demo_host = \<lparr>vm_run = demo_vm,
     to_string = (\<lambda>v. case v of JStr t \<Rightarrow> t | JBool b \<Rightarrow> (if b then ''true'' else ''false'') | _ \<Rightarrow> ''?''),
     json_stringify = (\<lambda>v. Inr ''{}''), to_number = (\<lambda>t. JNaN), user_functions = (\<lambda>f. None),
     user_variables = []\<rparr>"

section \<open>The fixpoint iteration stops within its cap\<close>

lemma iterate_passes_count:
  "iterate_passes H probe V M prev it = (res, n) \<Longrightarrow> it < n \<and> (n \<le> M \<or> n = Suc it)"
proof (induction H probe V M prev it rule: iterate_passes.induct)
  case (1 H probe V M prev it)
  show ?case
  proof (cases "run_handlers H V prev \<noteq> prev \<and> Suc it < M \<and> probe (run_handlers H V prev)")
    case True
    with "1.prems" have "iterate_passes H probe V M (run_handlers H V prev) (Suc it) = (res, n)"
      by (simp add: Let_def iterate_passes.simps[of H probe V M prev it])
    from "1.IH"[OF refl True this] True show ?thesis by auto
  next
    case False
    with "1.prems" show ?thesis by (auto simp: Let_def iterate_passes.simps[of H probe V M prev it])
  qed
qed

lemma iterate_passes_text:
  "iterate_passes H probe V M prev it = (res, n) \<Longrightarrow> res = (run_handlers H V ^^ (n - it)) prev"
proof (induction H probe V M prev it rule: iterate_passes.induct)
  case (1 H probe V M prev it)
  show ?case
  proof (cases "run_handlers H V prev \<noteq> prev \<and> Suc it < M \<and> probe (run_handlers H V prev)")
    case True
    with "1.prems" have eq: "iterate_passes H probe V M (run_handlers H V prev) (Suc it) = (res, n)"
      by (simp add: Let_def iterate_passes.simps[of H probe V M prev it])
    from iterate_passes_count[OF eq] have "n - it = Suc (n - Suc it)" by arith
    with "1.IH"[OF refl True eq] show ?thesis by (simp add: funpow_swap1)
  next
    case False
    with "1.prems" show ?thesis by (auto simp: Let_def iterate_passes.simps[of H probe V M prev it])
  qed
qed

lemma iterate_passes_continue:
  "iterate_passes H probe V M prev it = (res, n) \<Longrightarrow> 0 < j \<Longrightarrow> j < n - it \<Longrightarrow>
   (run_handlers H V ^^ j) prev \<noteq> (run_handlers H V ^^ (j - 1)) prev \<and>
   probe ((run_handlers H V ^^ j) prev)"
proof (induction H probe V M prev it arbitrary: j rule: iterate_passes.induct)
  case (1 H probe V M prev it)
  show ?case
  proof (cases "run_handlers H V prev \<noteq> prev \<and> Suc it < M \<and> probe (run_handlers H V prev)")
    case True
    with "1.prems" have eq: "iterate_passes H probe V M (run_handlers H V prev) (Suc it) = (res, n)"
      by (simp add: Let_def iterate_passes.simps[of H probe V M prev it])
    show ?thesis
    proof (cases "j = 1")
      case True
      with \<open>run_handlers H V prev \<noteq> prev \<and> Suc it < M \<and> probe (run_handlers H V prev)\<close>
      show ?thesis by simp
    next
      case False
      with "1.prems" obtain j' where j': "j = Suc j'" "0 < j'" "j' < n - Suc it"
        by (cases j) auto
      from "1.IH"[OF refl True eq j'(2) j'(3)] j'(1) j'(2) show ?thesis
        by (cases j') (simp_all add: funpow_swap1)
    qed
  next
    case False
    with "1.prems" show ?thesis by (auto simp: Let_def iterate_passes.simps[of H probe V M prev it])
  qed
qed

lemma iterate_passes_stop:
  "iterate_passes H probe V M prev it = (res, n) \<Longrightarrow>
   res = (run_handlers H V ^^ (n - it - 1)) prev \<or> M \<le> n \<or> \<not> probe res"
proof (induction H probe V M prev it rule: iterate_passes.induct)
  case (1 H probe V M prev it)
  show ?case
  proof (cases "run_handlers H V prev \<noteq> prev \<and> Suc it < M \<and> probe (run_handlers H V prev)")
    case True
    with "1.prems" have eq: "iterate_passes H probe V M (run_handlers H V prev) (Suc it) = (res, n)"
      by (simp add: Let_def iterate_passes.simps[of H probe V M prev it])
    from iterate_passes_count[OF eq] have "n - it - 1 = Suc (n - Suc it - 1)" by arith
    with "1.IH"[OF refl True eq] show ?thesis by (auto simp add: funpow_swap1)
  next
    case False
    with "1.prems" show ?thesis by (auto simp: Let_def iterate_passes.simps[of H probe V M prev it])
  qed
qed

text \<open>
  C7.  For every content, context, host and loop processor, the iteration of the four
  phases runs at least one and at most ten passes and returns the text of the last one.
  Every pass before the last changed the text and left a dynamic tag for the probe to
  find; the last pass left the text unchanged, or left nothing for the probe, or was the
  tenth.  The warning is written exactly when ten passes were run, and the text is
  returned all the same: \<open>processVariables\<close> with room for one call always returns.
\<close>

theorem processIteratively_at_most_ten_passes:
  fixes pv :: "string \<Rightarrow> vars \<Rightarrow> string option"
  shows "(let pass = run_handlers (processingPhases pv h) variables;
              r = processIteratively pv h content variables 10
          in 1 \<le> passes_of r \<and> passes_of r \<le> 10
             \<and> text_of r = (pass ^^ passes_of r) content
             \<and> (\<forall>j. 0 < j \<and> j < passes_of r \<longrightarrow>
                    (pass ^^ j) content \<noteq> (pass ^^ (j - 1)) content \<and> hasUnprocessedTags ((pass ^^ j) content))
             \<and> (text_of r = (pass ^^ (passes_of r - 1)) content \<or> \<not> hasUnprocessedTags (text_of r)
                  \<or> passes_of r = 10)
             \<and> (warned r \<longleftrightarrow> passes_of r = 10))
         \<and> processVariables (Suc depth) h content requestVariables \<noteq> None"
proof -
  obtain res n where eq:
    "iterate_passes (processingPhases pv h) hasUnprocessedTags variables 10 content 0 = (res, n)"
    by (cases "iterate_passes (processingPhases pv h) hasUnprocessedTags variables 10 content 0")
  have r: "processIteratively pv h content variables 10 =
             \<lparr>text_of = res, passes_of = n, warned = (10 \<le> n)\<rparr>"
    by (simp add: processIteratively_def processIteratively_with_def eq)
  from iterate_passes_count[OF eq] have n: "1 \<le> n" "n \<le> 10" by auto
  from iterate_passes_text[OF eq] have t: "res = (run_handlers (processingPhases pv h) variables ^^ n) content"
    by simp
  have c: "\<forall>j. 0 < j \<and> j < n \<longrightarrow>
             (run_handlers (processingPhases pv h) variables ^^ j) content
               \<noteq> (run_handlers (processingPhases pv h) variables ^^ (j - 1)) content
             \<and> hasUnprocessedTags ((run_handlers (processingPhases pv h) variables ^^ j) content)"
    using iterate_passes_continue[OF eq] by simp
  from iterate_passes_stop[OF eq] n
  have st: "res = (run_handlers (processingPhases pv h) variables ^^ (n - 1)) content
            \<or> \<not> hasUnprocessedTags res \<or> n = 10"
    by auto
  from n have w: "(10 \<le> n) \<longleftrightarrow> n = 10" by auto
  show ?thesis
    unfolding Let_def r using n t c st w by simp
qed

lemma demo_ten_passes:
  "processIteratively (\<lambda>c v. None) demo_host ''{{x}}'' [(''x'', JStr ''{{x}}.'')] 10
     = \<lparr>text_of = ''{{x}}....................'', passes_of = 10, warned = True\<rparr>"
  by code_simp

theorem processIteratively_at_most_ten_passes_witness:
  "passes_of (processIteratively (\<lambda>c v. None) demo_host ''{{x}}'' [(''x'', JStr ''{{x}}.'')] 10) = 10
   \<and> warned (processIteratively (\<lambda>c v. None) demo_host ''{{x}}'' [(''x'', JStr ''{{x}}.'')] 10)
   \<and> text_of (processIteratively (\<lambda>c v. None) demo_host ''{{x}}'' [(''x'', JStr ''{{x}}.'')] 10)
       = (run_handlers (processingPhases (\<lambda>c v. None) demo_host) [(''x'', JStr ''{{x}}.'')] ^^ 10) ''{{x}}''
   \<and> (run_handlers (processingPhases (\<lambda>c v. None) demo_host) [(''x'', JStr ''{{x}}.'')] ^^ 3) ''{{x}}''
       \<noteq> (run_handlers (processingPhases (\<lambda>c v. None) demo_host) [(''x'', JStr ''{{x}}.'')] ^^ (3 - 1)) ''{{x}}''
   \<and> processVariables (Suc 0) demo_host ''{{x}}'' [(''x'', JStr ''{{x}}.'')] \<noteq> None"
proof -
  note T = processIteratively_at_most_ten_passes
             [of "\<lambda>c v. None" demo_host "[(''x'', JStr ''{{x}}.'')]" "''{{x}}''" 0 "[(''x'', JStr ''{{x}}.'')]",
              unfolded Let_def demo_ten_passes outcome.simps]
  from T have "\<forall>j. 0 < j \<and> j < 10 \<longrightarrow>
       (run_handlers (processingPhases (\<lambda>c v. None) demo_host) [(''x'', JStr ''{{x}}.'')] ^^ j) ''{{x}}''
         \<noteq> (run_handlers (processingPhases (\<lambda>c v. None) demo_host) [(''x'', JStr ''{{x}}.'')] ^^ (j - 1)) ''{{x}}''
       \<and> hasUnprocessedTags
           ((run_handlers (processingPhases (\<lambda>c v. None) demo_host) [(''x'', JStr ''{{x}}.'')] ^^ j) ''{{x}}'')"
    by blast
  then have "(0::nat) < 3 \<and> (3::nat) < 10 \<longrightarrow>
       (run_handlers (processingPhases (\<lambda>c v. None) demo_host) [(''x'', JStr ''{{x}}.'')] ^^ 3) ''{{x}}''
         \<noteq> (run_handlers (processingPhases (\<lambda>c v. None) demo_host) [(''x'', JStr ''{{x}}.'')] ^^ (3 - 1)) ''{{x}}''
       \<and> hasUnprocessedTags
           ((run_handlers (processingPhases (\<lambda>c v. None) demo_host) [(''x'', JStr ''{{x}}.'')] ^^ 3) ''{{x}}'')"
    by (rule spec)
  then have three:
    "(run_handlers (processingPhases (\<lambda>c v. None) demo_host) [(''x'', JStr ''{{x}}.'')] ^^ 3) ''{{x}}''
       \<noteq> (run_handlers (processingPhases (\<lambda>c v. None) demo_host) [(''x'', JStr ''{{x}}.'')] ^^ (3 - 1)) ''{{x}}''"
    by linarith
  from T have tx:
    "''{{x}}....................''
       = (run_handlers (processingPhases (\<lambda>c v. None) demo_host) [(''x'', JStr ''{{x}}.'')] ^^ 10) ''{{x}}''"
    by blast
  from T have ret: "processVariables (Suc 0) demo_host ''{{x}}'' [(''x'', JStr ''{{x}}.'')] \<noteq> None"
    by blast
  show ?thesis
    unfolding demo_ten_passes outcome.simps using three tx ret by blast
qed

section \<open>Text without dynamic tags passes through the pipeline\<close>

text \<open>
  Every regular expression of the four phases needs two opening braces in a row before
  it can match.  In a text without them nothing matches and every replacement is the
  identity.
\<close>

definition no2 :: "string \<Rightarrow> bool" where
  "no2 rest = (index_from rest ''{{'' 0 = None)"

lemma index_from_None_shift: "index_from rest pat i = None \<Longrightarrow> index_from rest pat j = None"
  by (induction rest arbitrary: i j) (auto split: if_splits)

lemma no2_Cons: "no2 (x # xs) \<Longrightarrow> no2 xs"
  unfolding no2_def by (auto split: if_splits intro: index_from_None_shift)

lemma no2_two: "no2 (x # y # zs) \<Longrightarrow> \<not> (x = CHR ''{'' \<and> y = CHR ''{'')"
  unfolding no2_def by (auto split: if_splits)

lemma no2_drop: "no2 s \<Longrightarrow> no2 (drop i s)"
proof (induction i arbitrary: s)
  case 0 then show ?case by simp
next
  case (Suc i) then show ?case by (cases s) (auto dest: no2_Cons)
qed

lemma no2_includes: "\<not> str_includes s ''{{'' \<Longrightarrow> no2 s"
  by (simp add: str_includes_def index_of_def no2_def)

lemmas rxdefs = seqs_def lit_def plus_def any_char_def not_char_def spaces_def spaces1_def word1_def dot_def quote_def other_case_def

lemma braces_first:
  "no2 rest \<Longrightarrow> rx_run (Rx (Chr CHR ''{'') # Rx (Seq (Chr CHR ''{'') a) # K) i rest c = None"
  by (cases rest; cases "tl rest") (auto dest: no2_two)
lemma IfRegex_no2: "no2 rest \<Longrightarrow> rx_run [Rx IfRegex] i rest c = None"
  by (cases rest; cases "tl rest") (auto simp: IfRegex_def rxdefs dest: no2_two)
lemma forRegex_no2: "no2 rest \<Longrightarrow> rx_run [Rx forRegex] i rest c = None"
  by (cases rest; cases "tl rest") (auto simp: forRegex_def rxdefs dest: no2_two)
lemma forKeyValueRegex_no2: "no2 rest \<Longrightarrow> rx_run [Rx forKeyValueRegex] i rest c = None"
  by (cases rest; cases "tl rest") (auto simp: forKeyValueRegex_def rxdefs dest: no2_two)
lemma userFuncRegex_no2: "no2 rest \<Longrightarrow> rx_run [Rx userFuncRegex] i rest c = None"
  by (cases rest; cases "tl rest") (auto simp: userFuncRegex_def rxdefs dest: no2_two)
lemma objectPropertyRegex_no2: "no2 rest \<Longrightarrow> rx_run [Rx objectPropertyRegex] i rest c = None"
  by (cases rest; cases "tl rest") (auto simp: objectPropertyRegex_def rxdefs dest: no2_two)
lemma expressionRegex_no2: "no2 rest \<Longrightarrow> rx_run [Rx expressionRegex] i rest c = None"
  by (cases rest; cases "tl rest") (auto simp: expressionRegex_def rxdefs dest: no2_two)
lemma variableRegex_no2: "no2 rest \<Longrightarrow> rx_run [Rx (variableRegex key)] i rest c = None"
  by (cases rest; cases "tl rest") (auto simp: variableRegex_def rxdefs dest: no2_two)

lemma star_class_no2:
  assumes K: "\<And>i rest c. no2 rest \<Longrightarrow> rx_run K i rest c = None"
  shows "no2 rest \<Longrightarrow> rx_run (Rx (Star g (Cls p)) # K) i rest c = None"
proof (induction rest arbitrary: i c)
  case Nil
  then show ?case by (simp add: K)
next
  case (Cons x xs)
  from Cons.prems have xs: "no2 xs" by (rule no2_Cons)
  have A: "rx_run (Rx (Cls p) # Loop g (Cls p) i # K) i (x # xs) c = None"
    by (simp add: Cons.IH[OF xs] del: rx_run.simps(9))
  show ?case
    using A by (subst rx_run.simps(9)) (cases g; simp add: K[OF Cons.prems] del: rx_run.simps)
qed

lemma quotedVarRegex_no2: "no2 rest \<Longrightarrow> rx_run [Rx quotedVarRegex] i rest c = None"
proof -
  assume n: "no2 rest"
  have K: "\<And>K' i rest c. no2 rest \<Longrightarrow>
      rx_run (Rx (Seq (Seq (Chr CHR ''{'') (Seq (Chr CHR ''{'') Eps)) K') # []) i rest c = None"
    subgoal for K' i rest c
      by (cases rest; cases "tl rest") (auto dest: no2_two)
    done
  show ?thesis
  proof (cases rest)
    case Nil
    then show ?thesis by (simp add: quotedVarRegex_def rxdefs)
  next
    case (Cons x xs)
    with n have "no2 xs" by (auto dest: no2_Cons)
    then show ?thesis using Cons
      by (simp add: quotedVarRegex_def rxdefs star_class_no2[OF K] del: rx_run.simps(9))
  qed
qed

lemma match_all_from_none:
  "(\<And>j. rx_exec_at r n s j = None) \<Longrightarrow> rx_match_all_from r n s i = []"
proof (induction r n s i rule: rx_match_all_from.induct)
  case (1 r n s i)
  then show ?case by (simp add: rx_match_all_from.simps[of r n s i])
qed

lemma match_all_no2:
  assumes "\<And>i rest c. no2 rest \<Longrightarrow> rx_run [Rx r] i rest c = None" and "no2 s"
  shows "rx_match_all r n s = []"
  unfolding rx_match_all_def
  by (rule match_all_from_none) (simp add: rx_exec_at_def assms no2_drop)

lemma replace_no2:
  assumes "\<And>i rest c. no2 rest \<Longrightarrow> rx_run [Rx r] i rest c = None" and "no2 s"
  shows "rx_replace r n s f = s"
  by (simp add: rx_replace_def match_all_no2[OF assms])

lemma replace_str_no2:
  assumes "\<And>i rest c. no2 rest \<Longrightarrow> rx_run [Rx r] i rest c = None" and "no2 s"
  shows "rx_replace_str r s t = s"
  by (simp add: rx_replace_str_def match_all_no2[OF assms])

lemma processLoops_no2: "no2 content \<Longrightarrow> processLoops pv h content variables = content"
  by (simp add: processLoops_def replace_no2 forKeyValueRegex_no2 forRegex_no2)

lemma processConditionals_no2: "no2 content \<Longrightarrow> processConditionals h content variables = content"
  by (simp add: processConditionals_def conditionals_loop.simps[of h variables content]
        replace_no2 match_all_no2 IfRegex_no2)

lemma processUserFunctions_no2: "no2 content \<Longrightarrow> processUserFunctions h content variables = content"
  by (simp add: processUserFunctions_def replace_no2 userFuncRegex_no2)

lemma replaceVariables_no2: "no2 content \<Longrightarrow> foldl (replaceVariable h) content variables = content"
  by (induction variables) (auto simp: replaceVariable_def replace_str_no2 variableRegex_no2)

lemma processVariablesAndExpressions_no2:
  "no2 content \<Longrightarrow> processVariablesAndExpressions h content variables = content"
  by (simp add: processVariablesAndExpressions_def replace_no2 quotedVarRegex_no2 objectPropertyRegex_no2
        expressionRegex_no2 replaceVariables_no2)

lemma run_handlers_no2: "no2 content \<Longrightarrow> run_handlers (processingPhases pv h) variables content = content"
  by (simp add: run_handlers_def processingPhases_def processLoops_no2 processConditionals_no2
        processUserFunctions_no2 processVariablesAndExpressions_no2)

lemma processVariables_no2: "no2 content \<Longrightarrow> processVariables (Suc depth) h content rv = Some content"
  by (simp add: processIteratively_def processIteratively_with_def
        iterate_passes.simps[of _ _ _ _ content] run_handlers_no2)

text \<open>
  C9.  On a content without the substring \<open>{{\<close>, each of the four phases returns the
  content unchanged, for every context, host and loop processor, and \<open>processVariables\<close>
  returns it after a single pass.  Block markers and include directives are such text.
\<close>

theorem plain_text_unchanged:
  "\<not> str_includes content ''{{'' \<Longrightarrow>
     processLoops pv h content variables = content
   \<and> processConditionals h content variables = content
   \<and> processUserFunctions h content variables = content
   \<and> processVariablesAndExpressions h content variables = content
   \<and> processVariables (Suc depth) h content requestVariables = Some content"
  by (simp add: no2_includes processLoops_no2 processConditionals_no2 processUserFunctions_no2
        processVariablesAndExpressions_no2 processVariables_no2 del: processVariables.simps)

theorem plain_text_unchanged_witness:
  "\<not> str_includes ''<p>[!main]Hi {name}[~main][include foot.html]</p>'' ''{{'' 
   \<and> processVariables (Suc 0) demo_host ''<p>[!main]Hi {name}[~main][include foot.html]</p>'' [(''name'', JStr ''x'')]
       = Some ''<p>[!main]Hi {name}[~main][include foot.html]</p>''
   \<and> processVariablesAndExpressions demo_host ''<p>[!main]Hi {name}[~main][include foot.html]</p>'' [(''name'', JStr ''x'')]
       = ''<p>[!main]Hi {name}[~main][include foot.html]</p>''"
proof -
  have n: "\<not> str_includes ''<p>[!main]Hi {name}[~main][include foot.html]</p>'' ''{{''"
    by (simp add: str_includes_def index_of_def)
  from plain_text_unchanged[OF n, of "\<lambda>c v. None" demo_host "[(''name'', JStr ''x'')]" 0 "[(''name'', JStr ''x'')]"] n
  show ?thesis by blast
qed

section \<open>The branches of a conditional\<close>

lemma hasUnprocessedTags_no2: "no2 content \<Longrightarrow> \<not> hasUnprocessedTags content"
  by (simp add: hasUnprocessedTags_def rx_test_def match_all_no2 forRegex_no2 forKeyValueRegex_no2
        IfRegex_no2 userFuncRegex_no2 expressionRegex_no2 objectPropertyRegex_no2)
lemma example_if_match:
  "rx_match_all IfRegex 4 ''{{if 1>2}}A{{else if 2>1}}B{{else}}C{{endif}}''
     = [(0, 45, [Some (5, 8), Some (10, 11), Some (11, 27), Some (35, 36)])]"
  by code_simp
lemma example_else_if_match: "rx_match_all elseIfRegex 2 ''{{else if 2>1}}B'' = []"
  by code_simp
lemma example_no_loops:
  "rx_match_all forKeyValueRegex 5 ''{{if 1>2}}A{{else if 2>1}}B{{else}}C{{endif}}'' = []"
  "rx_match_all forRegex 4 ''{{if 1>2}}A{{else if 2>1}}B{{else}}C{{endif}}'' = []"
  by code_simp+
lemma example_groups:
  "groups ''{{if 1>2}}A{{else if 2>1}}B{{else}}C{{endif}}'' [Some (5, 8), Some (10, 11), Some (11, 27), Some (35, 36)]
     = [Some ''1>2'', Some ''A'', Some ''{{else if 2>1}}B'', Some ''C'']"
  by (simp add: groups_def slice_def eval_nat_numeral)
lemma example_branch:
  "conditionalBranch h variables [Some ''1>2'', Some ''A'', Some ''{{else if 2>1}}B'', Some ''C'']
     = (if truthy (evaluateExpression h ''1>2'' variables) then ''A'' else ''C'')"
  by (simp add: conditionalBranch_def elseIfBranch_def example_else_if_match group_def or_empty_def Let_def)
lemma conditionals_loop_done: "conditionals_loop h variables result False n = result"
  by (subst conditionals_loop.simps) simp

lemma example_conditionals:
  "processConditionals h ''{{if 1>2}}A{{else if 2>1}}B{{else}}C{{endif}}'' variables
     = (if truthy (evaluateExpression h ''1>2'' variables) then ''A'' else ''C'')"
proof -
  have nested: "\<not> hasNestedIf [Some ''1>2'', Some ''A'', Some ''{{else if 2>1}}B'', Some ''C'']"
    by (simp add: hasNestedIf_def group_def or_empty_def str_includes_def index_of_def)
  have rep: "rx_replace IfRegex 4 ''{{if 1>2}}A{{else if 2>1}}B{{else}}C{{endif}}''
               (\<lambda>m gs. conditionalBranch h variables gs)
             = (if truthy (evaluateExpression h ''1>2'' variables) then ''A'' else ''C'')"
    by (simp add: rx_replace_def example_if_match example_groups example_branch slice_def)
  show ?thesis
    unfolding processConditionals_def
    by (subst conditionals_loop.simps)
       (simp add: rep example_if_match example_groups nested conditionals_loop_done)
qed
lemma no2_A: "no2 ''A''" and no2_C: "no2 ''C''"
  by (simp_all add: no2_def)

text \<open>
  C1.  The template \<open>{{if 1>2}}A{{else if 2>1}}B{{else}}C{{endif}}\<close> never renders as
  \<open>B\<close>.  \<open>IfRegex\<close> hands the callback the blocks \<open>{{else if 2>1}}B\<close>; \<open>elseIfRegex\<close> ends
  with a lookahead for the tag that follows the branch, and that tag lies outside the
  blocks, so \<open>elseIfRegex\<close> finds no branch in them.  The conditional phase, and with it
  \<open>processVariables\<close>, returns \<open>A\<close> when the host finds \<open>1>2\<close> true and \<open>C\<close> otherwise,
  whatever the context and the host.
\<close>

theorem else_if_branch_is_never_taken:
  "processConditionals h ''{{if 1>2}}A{{else if 2>1}}B{{else}}C{{endif}}'' variables
     = (if truthy (evaluateExpression h ''1>2'' variables) then ''A'' else ''C'')
   \<and> processVariables (Suc depth) h ''{{if 1>2}}A{{else if 2>1}}B{{else}}C{{endif}}'' requestVariables
     = Some (if truthy (evaluateExpression h ''1>2'' (obj_spread (user_variables h) requestVariables))
             then ''A'' else ''C'')"
proof -
  let ?T = "''{{if 1>2}}A{{else if 2>1}}B{{else}}C{{endif}}''"
  let ?V = "obj_spread (user_variables h) requestVariables"
  let ?R = "if truthy (evaluateExpression h ''1>2'' ?V) then ''A'' else ''C''"
  have loops: "processLoops (processVariables depth h) h ?T ?V = ?T"
    by (simp add: processLoops_def rx_replace_def example_no_loops)
  have n: "no2 ?R" by (simp add: no2_A no2_C)
  have pass: "run_handlers (processingPhases (processVariables depth h) h) ?V ?T = ?R"
    unfolding run_handlers_def processingPhases_def
    using n by (simp add: loops example_conditionals processUserFunctions_no2 processVariablesAndExpressions_no2)
  have "iterate_passes (processingPhases (processVariables depth h) h) hasUnprocessedTags ?V 10 ?T 0 = (?R, 1)"
    by (subst iterate_passes.simps) (simp add: pass hasUnprocessedTags_no2[OF n])
  then show ?thesis
    by (simp add: example_conditionals processIteratively_def processIteratively_with_def del: processVariables.simps(2))
       (simp add: processIteratively_def processIteratively_with_def)
qed

lemma demo_false: "evaluateExpression demo_host ''1>2'' variables = JBool False"
  by (simp add: evaluateExpression_def demo_host_def demo_vm_def)

theorem else_if_branch_is_never_taken_demo:
  "processVariables (Suc 0) demo_host ''{{if 1>2}}A{{else if 2>1}}B{{else}}C{{endif}}'' [] = Some ''C''"
  using else_if_branch_is_never_taken[of demo_host "[]" 0 "[]"]
  by (simp add: demo_false truthy_def del: processVariables.simps)

section \<open>Loop control\<close>

lemma processVariables_one:
  "processVariables (Suc 0) h content rv
     = Some (text_of (processIteratively (\<lambda>c v. None) h content (obj_spread (user_variables h) rv) 10))"
  by simp

lemma break_body_first:
  "processIteratively (\<lambda>c v. None) demo_host ''[{{x}}]{{if x_isLast}}{{break}}{{endif}}''
     [(''xs'', JArr [JStr ''a'', JStr ''b'']), (''x'', JStr ''a''), (''x_index'', JNum 0),
      (''x_isFirst'', JBool True), (''x_isLast'', JBool False)] 10
   = \<lparr>text_of = ''[a]'', passes_of = 1, warned = False\<rparr>"
  by code_simp
lemma break_body_second:
  "processIteratively (\<lambda>c v. None) demo_host ''[{{x}}]{{if x_isLast}}{{break}}{{endif}}''
     [(''xs'', JArr [JStr ''a'', JStr ''b'']), (''x'', JStr ''b''), (''x_index'', JNum 1),
      (''x_isFirst'', JBool False), (''x_isLast'', JBool True)] 10
   = \<lparr>text_of = ''[b]{{break}}'', passes_of = 2, warned = False\<rparr>"
  by code_simp
lemma break_template_matches:
  "rx_match_all forKeyValueRegex 5 ''{{for x in xs}}[{{x}}]{{if x_isLast}}{{break}}{{endif}}{{endfor}}'' = []"
  "rx_match_all forRegex 4 ''{{for x in xs}}[{{x}}]{{if x_isLast}}{{break}}{{endif}}{{endfor}}''
     = [(0, 65, [Some (6, 7), Some (11, 13), Some (15, 55), None])]"
  by code_simp+
lemma break_template_groups:
  "groups ''{{for x in xs}}[{{x}}]{{if x_isLast}}{{break}}{{endif}}{{endfor}}''
     [Some (6, 7), Some (11, 13), Some (15, 55), None]
   = [Some ''x'', Some ''xs'', Some ''[{{x}}]{{if x_isLast}}{{break}}{{endif}}'', None]"
  by (simp add: groups_def slice_def eval_nat_numeral)
lemma break_collection:
  "evaluateExpression demo_host ''xs'' [(''xs'', JArr [JStr ''a'', JStr ''b''])] = JArr [JStr ''a'', JStr ''b'']"
  by code_simp
lemma break_loop:
  "processLoop (processVariables (Suc 0) demo_host) demo_host [''x''] ''xs''
     ''[{{x}}]{{if x_isLast}}{{break}}{{endif}}'' None [(''xs'', JArr [JStr ''a'', JStr ''b''])] = ''[a]''"
proof -
  have lv0: "loopVariables [(''xs'', JArr [JStr ''a'', JStr ''b''])] [''x''] (JNum 0) (JStr ''a'') 0 (Suc (Suc 0))
       = [(''xs'', JArr [JStr ''a'', JStr ''b'']), (''x'', JStr ''a''), (''x_index'', JNum 0),
          (''x_isFirst'', JBool True), (''x_isLast'', JBool False)]"
    by code_simp
  have lv1: "loopVariables [(''xs'', JArr [JStr ''a'', JStr ''b''])] [''x''] (JNum 1) (JStr ''b'') (Suc 0) (Suc (Suc 0))
       = [(''xs'', JArr [JStr ''a'', JStr ''b'']), (''x'', JStr ''b''), (''x_index'', JNum 1),
          (''x_isFirst'', JBool False), (''x_isLast'', JBool True)]"
    by code_simp
  have uv: "\<And>v. obj_spread (user_variables demo_host) v = obj_spread [] v"
    by (simp add: demo_host_def)
  have id0: "obj_spread [] [(''xs'', JArr [JStr ''a'', JStr ''b'']), (''x'', JStr ''a''), (''x_index'', JNum 0),
          (''x_isFirst'', JBool True), (''x_isLast'', JBool False)]
        = [(''xs'', JArr [JStr ''a'', JStr ''b'']), (''x'', JStr ''a''), (''x_index'', JNum 0),
          (''x_isFirst'', JBool True), (''x_isLast'', JBool False)]"
    by code_simp
  have id1: "obj_spread [] [(''xs'', JArr [JStr ''a'', JStr ''b'']), (''x'', JStr ''b''), (''x_index'', JNum 1),
          (''x_isFirst'', JBool False), (''x_isLast'', JBool True)]
        = [(''xs'', JArr [JStr ''a'', JStr ''b'']), (''x'', JStr ''b''), (''x_index'', JNum 1),
          (''x_isFirst'', JBool False), (''x_isLast'', JBool True)]"
    by code_simp
  have inc: "\<not> str_includes ''[a]'' ''{{break}}''" "\<not> str_includes ''[a]'' ''{{continue}}''"
            "str_includes ''[b]{{break}}'' ''{{break}}''"
    by (simp_all add: str_includes_def index_of_def)
  show ?thesis
    by (simp add: processLoop_def Let_def break_collection isEmpty_def truthy_def indexed_entries_def unsafeKeys_def
          enumerate_eq_zip lv0 lv1 processVariables_one uv id0 id1 break_body_first break_body_second inc
          del: processVariables.simps)
qed
lemma processVariables_Suc:
  "processVariables (Suc depth) h content rv
     = Some (text_of (processIteratively (processVariables depth h) h content
                        (obj_spread (user_variables h) rv) 10))"
  by simp

lemma loop_break_discards_output:
  "pv loopContent (loopVariables variables namesArray key val i n) = Some processedContent \<Longrightarrow>
   str_includes processedContent ''{{break}}'' \<Longrightarrow>
   loop_iterations pv namesArray loopContent variables ((key, val) # rest) i n loopResult = Some loopResult"
  by simp

text \<open>
  C2.  A loop over \<open>[a, b]\<close> whose body prints the item and breaks on the last one renders
  \<open>[a]\<close>: the output \<open>[b]{{break}}\<close> of the breaking iteration is not part of the result.
  The source strips the marker from that output and leaves the loop before the output is
  appended.
\<close>

theorem break_discards_the_iteration:
  "processVariables (Suc (Suc 0)) demo_host
     ''{{for x in xs}}[{{x}}]{{if x_isLast}}{{break}}{{endif}}{{endfor}}''
     [(''xs'', JArr [JStr ''a'', JStr ''b''])] = Some ''[a]''"
proof -
  let ?T = "''{{for x in xs}}[{{x}}]{{if x_isLast}}{{break}}{{endif}}{{endfor}}''"
  let ?V = "[(''xs'', JArr [JStr ''a'', JStr ''b''])]"
  have V: "obj_spread (user_variables demo_host) ?V = ?V"
    by code_simp
  have loops: "processLoops (processVariables (Suc 0) demo_host) demo_host ?T ?V = ''[a]''"
    by (simp add: processLoops_def rx_replace_def break_template_matches break_template_groups
          group_def or_empty_def slice_def break_loop del: processVariables.simps)
  have n: "no2 ''[a]''" by (simp add: no2_def)
  have pass: "run_handlers (processingPhases (processVariables (Suc 0) demo_host) demo_host) ?V ?T = ''[a]''"
    unfolding run_handlers_def processingPhases_def
    by (simp add: loops processConditionals_no2[OF n] processUserFunctions_no2[OF n]
          processVariablesAndExpressions_no2[OF n] del: processVariables.simps)
  have "iterate_passes (processingPhases (processVariables (Suc 0) demo_host) demo_host)
          hasUnprocessedTags ?V 10 ?T 0 = (''[a]'', 1)"
    by (subst iterate_passes.simps) (simp add: pass hasUnprocessedTags_no2[OF n] del: processVariables.simps)
  then show ?thesis
    unfolding processVariables_Suc[of "Suc 0"] V
    by (simp add: processIteratively_def processIteratively_with_def del: processVariables.simps)
qed

section \<open>The validator loses no error\<close>

lemma index_from_None_drop: "index_from rest pat a = None \<Longrightarrow> index_from (drop k rest) pat b = None"
proof (induction k arbitrary: rest a)
  case 0
  then show ?case by (auto intro: index_from_None_shift)
next
  case (Suc k)
  then show ?case by (cases rest) (auto split: if_splits intro: index_from_None_shift)
qed

lemma index_of_None_later: "index_of s pat i = None \<Longrightarrow> i \<le> j \<Longrightarrow> index_of s pat j = None"
proof -
  assume a: "index_of s pat i = None" and le: "i \<le> j"
  from le have "drop j s = drop (j - i) (drop i s)" by simp
  with a show ?thesis
    unfolding index_of_def by (metis index_from_None_drop)
qed

lemma parseTag_B: "index_of content '']'' i = None \<Longrightarrow> parseTag content i t l = TagB (MissingBracket t l)"
  by (simp add: parseTag_def)

lemma parseTag_B_iff: "parseTag content i t l = TagB err \<Longrightarrow> index_of content '']'' i = None \<and> err = MissingBracket t l"
  by (auto simp: parseTag_def Let_def split: option.splits if_splits)

lemma parseTag_C_kind: "parseTag content i t l = TagC err e \<Longrightarrow> \<not> is_missing_bracket err"
  by (auto simp: parseTag_def Let_def split: option.splits if_splits)

lemma unclosed_kind: "filter is_missing_bracket (unclosed stack) = []"
  "filter (\<lambda>e. \<not> is_missing_bracket e) (unclosed stack) = unclosed stack"
  by (induction stack) (auto simp: unclosed_def)

lemma validate_all_after_incomplete:
  assumes nb: "index_of content '']'' i = None"
  shows "i \<le> j \<Longrightarrow>
    \<exists>ms. (\<forall>e \<in> set ms. is_missing_bracket e) \<and> validate_all_loop content j l stack = ms @ unclosed stack"
proof (induction "length content - j" arbitrary: j l)
  case 0
  then have "length content \<le> j" by simp
  then have "validate_all_loop content j l stack = unclosed stack"
    by (simp add: validate_all_loop.simps[of content j l stack])
  then show ?case by (intro exI[of _ "[]"]) simp
next
  case (Suc n)
  from Suc.hyps(2) Suc.prems have lt: "\<not> length content \<le> j" and n: "n = length content - Suc j"
    and le: "i \<le> Suc j"
    by auto
  let ?line = "if content ! j = CHR 0x0A then Suc l else l"
  from nb Suc.prems have "index_of content '']'' j = None"
    by (rule index_of_None_later)
  then have B: "\<And>t l'. parseTag content j t l' = TagB (MissingBracket t l')"
    by (simp add: parseTag_B)
  from Suc.hyps(1)[OF n le, of ?line] obtain ms where
    ms: "\<forall>e \<in> set ms. is_missing_bracket e"
        "validate_all_loop content (Suc j) ?line stack = ms @ unclosed stack"
    by blast
  have "validate_all_loop content j l stack = ms @ unclosed stack
        \<or> validate_all_loop content j l stack = (MissingBracket OpenTag ?line # ms) @ unclosed stack
        \<or> validate_all_loop content j l stack = (MissingBracket CloseTag ?line # ms) @ unclosed stack"
    using lt ms(2) by (simp add: validate_all_loop.simps[of content j l stack] B Let_def)
  with ms(1) show ?case
    by (elim disjE) (rule exI[of _ ms], simp, rule exI[of _ "MissingBracket OpenTag ?line # ms"], simp,
                     rule exI[of _ "MissingBracket CloseTag ?line # ms"], simp)
qed
definition same_errors :: "structure_error list \<Rightarrow> structure_error list \<Rightarrow> bool" where
  "same_errors found every =
     (filter (\<lambda>e. \<not> is_missing_bracket e) found = filter (\<lambda>e. \<not> is_missing_bracket e) every
      \<and> filter is_missing_bracket found = take 1 (filter is_missing_bracket every))"

lemma same_errors_Cons: "same_errors xs ys \<Longrightarrow> \<not> is_missing_bracket e \<Longrightarrow> same_errors (e # xs) (e # ys)"
  by (simp add: same_errors_def)

lemma same_errors_end: "same_errors (unclosed stack) (unclosed stack)"
  by (simp add: same_errors_def unclosed_kind)

lemma same_errors_incomplete:
  "\<forall>e \<in> set ms. is_missing_bracket e \<Longrightarrow>
   same_errors (MissingBracket t l # unclosed stack) (MissingBracket t l # ms @ unclosed stack)"
  by (simp add: same_errors_def unclosed_kind filter_empty_conv)
lemma validate_loop_same_errors:
  "same_errors (validate_loop content i l stack) (validate_all_loop content i l stack)"
proof (induction "length content - i" arbitrary: i l stack rule: less_induct)
  case less
  let ?line = "if content ! i = CHR 0x0A then Suc l else l"
  note U = validate_loop.simps[of content i l stack] validate_all_loop.simps[of content i l stack]
  show ?case
  proof (cases "length content \<le> i")
    case True
    then show ?thesis by (simp add: U same_errors_end)
  next
    case False
    have IH: "same_errors (validate_loop content (Suc e) l' st) (validate_all_loop content (Suc e) l' st)"
      if "i \<le> e" for e l' st
      using that False by (intro less) simp
    have incomplete: "same_errors (err # unclosed stack) (err # validate_all_loop content (Suc i) ?line stack)"
      if "parseTag content i t ?line = TagB err" for t err
    proof -
      from that have nb: "index_of content '']'' i = None" and err: "err = MissingBracket t ?line"
        by (auto dest: parseTag_B_iff)
      from validate_all_after_incomplete[OF nb, of "Suc i" ?line stack] obtain ms where
        "\<forall>e \<in> set ms. is_missing_bracket e" "validate_all_loop content (Suc i) ?line stack = ms @ unclosed stack"
        by auto
      then show ?thesis unfolding err by (simp add: same_errors_incomplete)
    qed
    show ?thesis
    proof (cases "starts_with (drop i content) ''[!''")
      case True
      show ?thesis
      proof (cases "parseTag content i OpenTag ?line")
        case (TagB err)
        with False True incomplete[OF TagB] show ?thesis by (simp add: U)
      next
        case (TagC err e)
        with False have "i \<le> e" by (auto dest: parseTag_C_ge)
        with False True TagC show ?thesis
          by (simp add: U same_errors_Cons IH parseTag_C_kind[OF TagC])
      next
        case (TagName name e)
        with False have "i \<le> e" by (auto dest: parseTag_Name_ge)
        with False True TagName show ?thesis by (simp add: U IH)
      qed
    next
      case no: False
      show ?thesis
      proof (cases "starts_with (drop i content) ''[~''")
        case True
        show ?thesis
        proof (cases "parseTag content i CloseTag ?line")
          case (TagB err)
          with False no True incomplete[OF TagB] show ?thesis by (simp add: U)
        next
          case (TagC err e)
          with False have "i \<le> e" by (auto dest: parseTag_C_ge)
          with False no True TagC show ?thesis
            by (simp add: U same_errors_Cons IH parseTag_C_kind[OF TagC])
        next
          case (TagName name e)
          with False have "i \<le> e" by (auto dest: parseTag_Name_ge)
          with False no True TagName show ?thesis by (simp add: U IH same_errors_Cons)
        qed
      next
        case False
        with \<open>\<not> length content \<le> i\<close> no show ?thesis by (simp add: U IH)
      qed
    qed
  qed
qed

text \<open>
  C8, as stated, fails: on \<open>[!a[~b\<close> the source stops at the open tag without closing
  bracket, and the close tag after it, which has none either, is not reported.
\<close>

theorem validate_stops_at_incomplete_tag:
  "validateTemplateStructure ''[!a[~b'' = [MissingBracket OpenTag 1]
   \<and> validate_all ''[!a[~b'' = [MissingBracket OpenTag 1, MissingBracket CloseTag 1]"
  by code_simp

text \<open>
  C8, amended.  The validator is total, and it reports every mismatch, every unmatched
  close tag, every unclosed block, every empty name and every illegal character that the
  uninterrupted scan of the whole input reports, in the same order: a malformed tag does
  not stop it.  It stops at the first tag without closing bracket, so of the
  missing-bracket errors it reports the first one only.
\<close>

theorem validate_records_every_error:
  "filter (\<lambda>e. \<not> is_missing_bracket e) (validateTemplateStructure content)
     = filter (\<lambda>e. \<not> is_missing_bracket e) (validate_all content)
   \<and> filter is_missing_bracket (validateTemplateStructure content)
     = take 1 (filter is_missing_bracket (validate_all content))"
  using validate_loop_same_errors[of content 0 1 "[]"]
  by (simp add: same_errors_def validateTemplateStructure_def validate_all_def)

theorem validate_records_every_error_witness:
  "filter (\<lambda>e. \<not> is_missing_bracket e) (validateTemplateStructure ''[!a]x[~b][!][~a]\<newline>[~q][!c[~d'')
     = [Mismatch 1 ''a'' ''b'', EmptyName OpenTag 1, ExtraClose 2 ''q'']
   \<and> filter is_missing_bracket (validateTemplateStructure ''[!a]x[~b][!][~a]\<newline>[~q][!c[~d'')
     = [MissingBracket OpenTag 2]"
proof -
  have all: "validate_all ''[!a]x[~b][!][~a]\<newline>[~q][!c[~d''
      = [Mismatch 1 ''a'' ''b'', EmptyName OpenTag 1, ExtraClose 2 ''q'', MissingBracket OpenTag 2,
         MissingBracket CloseTag 2]"
    by code_simp
  show ?thesis
    using validate_records_every_error[of "''[!a]x[~b][!][~a]\<newline>[~q][!c[~d''"]
    unfolding all by simp
qed

section \<open>Cyclic includes\<close>

text \<open>
  Two files that include each other, under the template root \<open>/srv/templates\<close>.
\<close>

definition cycle_env :: env where
  "cycle_env = \<lparr>cwd = ''/srv'',
     read_file = map_of [(''/srv/templates/a.html'', ''A[include b.html]''),
                         (''/srv/templates/b.html'', ''B[include a.html]'')]\<rparr>"
lemma cycle_matches:
  "include_matches ''A[include b.html]'' = [\<lparr>match_text = ''[include b.html]'', match_fileName = ''b.html'', match_index = 1\<rparr>]"
  "include_matches ''B[include a.html]'' = [\<lparr>match_text = ''[include a.html]'', match_fileName = ''a.html'', match_index = 1\<rparr>]"
  by code_simp+
lemma cycle_paths:
  "templatesAbsDir cycle_env = ''/srv/templates''"
  "includePath_of cycle_env ''a.html'' ''b.html'' = ''/srv/templates/b.html''"
  "includePath_of cycle_env ''b.html'' ''a.html'' = ''/srv/templates/a.html''"
  "isSafePath ''/srv/templates/a.html'' ''/srv/templates''"
  "isSafePath ''/srv/templates/b.html'' ''/srv/templates''"
  "path_relative ''/srv/templates'' ''/srv/templates/a.html'' = ''a.html''"
  "path_relative ''/srv/templates'' ''/srv/templates/b.html'' = ''b.html''"
  "read_file cycle_env ''/srv/templates/a.html'' = Some ''A[include b.html]''"
  "read_file cycle_env ''/srv/templates/b.html'' = Some ''B[include a.html]''"
  by code_simp+
lemma cycle_third:
  "processIncludes (Suc k) cycle_env ''A[include b.html]'' ''a.html'' {''/srv/templates/b.html'', ''/srv/templates/a.html''} st
     = Some (''A'', warn (CyclicInclude ''b.html'') st)"
  by (simp add: cycle_matches cycle_paths include_fragment_def Let_def slice_def)
lemma cycle_second:
  "\<not> isCompilationMode st \<Longrightarrow>
   processIncludes (Suc (Suc k)) cycle_env ''B[include a.html]'' ''b.html'' {''/srv/templates/b.html''} st
     = Some (''BA'', warn (CyclicInclude ''b.html'') st)"
  by (simp add: processIncludes.simps(2)[of "Suc k"] cycle_third cycle_matches cycle_paths include_fragment_def
        Let_def slice_def insert_commute del: processIncludes.simps)
lemma cycle_first:
  "\<not> isCompilationMode st \<Longrightarrow>
   processIncludes (Suc (Suc (Suc k))) cycle_env ''A[include b.html]'' ''a.html'' {} st
     = Some (''ABA'', warn (CyclicInclude ''b.html'') st)"
  by (simp add: processIncludes.simps(2)[of "Suc (Suc k)"] cycle_second cycle_matches cycle_paths
        include_fragment_def Let_def slice_def del: processIncludes.simps)

text \<open>
  C3.  Rendering \<open>a.html\<close>, which includes \<open>b.html\<close>, which includes \<open>a.html\<close>, returns, with
  any room for three nested calls or more, and writes one warning.  The result is \<open>ABA\<close>:
  the reference from \<open>b.html\<close> back to \<open>a.html\<close> is expanded, because the inclusion stack of
  the first call is empty and \<open>a.html\<close> is not the current file of the second call; the
  directive that is dropped is the one of the third level, to \<open>b.html\<close>.
\<close>

theorem include_cycle_renders_root_twice:
  "processIncludes (Suc (Suc (Suc depth))) cycle_env ''A[include b.html]'' ''a.html'' {} init_engine
     = Some (''ABA'', init_engine\<lparr>console := [CyclicInclude ''b.html'']\<rparr>)"
  by (simp add: cycle_first init_engine_def warn_def del: processIncludes.simps)

section \<open>Includes and the template root\<close>

definition inside_root :: "string \<Rightarrow> string \<Rightarrow> bool" where
  \<comment> \<open>a path that stays within the root: the root itself or a path below it\<close>
  "inside_root root p = (p = root \<or> starts_with p (root @ ''/''))"

definition sibling_env :: env where
  "sibling_env = \<lparr>cwd = ''/srv'',
     read_file = map_of [(''/srv/templates-old/x.html'', ''secret'')]\<rparr>"
lemma sibling_matches:
  "include_matches ''[include ../templates-old/x.html]''
     = [\<lparr>match_text = ''[include ../templates-old/x.html]'', match_fileName = ''../templates-old/x.html'',
         match_index = 0\<rparr>]"
  "include_matches ''secret'' = []"
  by code_simp+
lemma sibling_paths:
  "templatesAbsDir sibling_env = ''/srv/templates''"
  "includePath_of sibling_env ''index.html'' ''../templates-old/x.html'' = ''/srv/templates-old/x.html''"
  "isSafePath ''/srv/templates-old/x.html'' ''/srv/templates''"
  "path_relative ''/srv/templates'' ''/srv/templates-old/x.html'' = ''../templates-old/x.html''"
  "read_file sibling_env ''/srv/templates-old/x.html'' = Some ''secret''"
  "\<not> inside_root ''/srv/templates'' ''/srv/templates-old/x.html''"
  by code_simp+

text \<open>
  C5.  With a directory \<open>/srv/templates-old\<close> beside the root \<open>/srv/templates\<close>, the directive
  \<open>[include ../templates-old/x.html]\<close> resolves to a path outside the root that
  \<open>isSafePath\<close> accepts, since the resolved path starts with the characters of the root;
  the file is read and spliced.
\<close>

theorem include_reads_outside_root:
  "isSafePath (includePath_of sibling_env ''index.html'' ''../templates-old/x.html'') (templatesAbsDir sibling_env)
   \<and> \<not> inside_root (templatesAbsDir sibling_env) (includePath_of sibling_env ''index.html'' ''../templates-old/x.html'')
   \<and> processIncludes (Suc (Suc depth)) sibling_env ''[include ../templates-old/x.html]'' ''index.html'' {} init_engine
       = Some (''secret'', init_engine)"
  by (simp add: processIncludes.simps(2)[of "Suc depth"] processIncludes.simps(2)[of depth]
        sibling_matches sibling_paths include_fragment_def Let_def slice_def init_engine_def
        del: processIncludes.simps)

section \<open>The registry is changed by two operations only\<close>

text \<open>
  A caller can do three things to a \<open>Set\<close> it holds.  \<open>registry_grows\<close> is what a run of
  the resolver may do to the engine: it allocates nothing and leaves the flag and every
  other \<open>Set\<close> alone; it appends to the registry, nothing outside compilation mode, and
  in compilation mode only root-relative paths of files that were read.
\<close>

datatype set_op = Add string | Delete string | Clear

fun apply_op :: "ref \<Rightarrow> engine \<Rightarrow> set_op \<Rightarrow> engine" where
  "apply_op r st (Add x) = set_add r x st"
| "apply_op r st (Delete x) = set_delete r x st"
| "apply_op r st Clear = set_clear r st"

definition registry_grows :: "env \<Rightarrow> engine \<Rightarrow> engine \<Rightarrow> bool" where
  "registry_grows e st st' =
     (next_ref st' = next_ref st \<and> isCompilationMode st' = isCompilationMode st
      \<and> (\<forall>r. r \<noteq> includedFiles \<longrightarrow> store st' r = store st r)
      \<and> (\<exists>added. store st' includedFiles = store st includedFiles @ added
             \<and> (\<not> isCompilationMode st \<longrightarrow> added = [])
             \<and> (\<forall>p \<in> set added. \<exists>includePath. p = path_relative (templatesAbsDir e) includePath
                                                  \<and> read_file e includePath \<noteq> None)))"
lemma registry_grows_refl: "registry_grows e st st"
  by (simp add: registry_grows_def)

lemma registry_grows_trans:
  "registry_grows e st st1 \<Longrightarrow> registry_grows e st1 st2 \<Longrightarrow> registry_grows e st st2"
  unfolding registry_grows_def
  by (elim conjE exE, intro conjI) (simp, simp, simp, rule_tac x="added @ addeda" in exI, auto)
lemma registry_grows_warn: "registry_grows e st (warn w st)"
  by (simp add: registry_grows_def warn_def)

lemma registry_grows_add:
  "isCompilationMode st \<Longrightarrow> read_file e includePath \<noteq> None \<Longrightarrow>
   registry_grows e st (set_add includedFiles (path_relative (templatesAbsDir e) includePath) st)"
  unfolding registry_grows_def set_add_def
  by (cases "path_relative (templatesAbsDir e) includePath \<in> set (store st includedFiles)") auto
lemma include_fragment_grows:
  assumes self: "\<And>c f s st0 t st1. self c f s st0 = Some (t, st1) \<Longrightarrow> registry_grows e st0 st1"
  shows "include_fragment self e currentFile inclusionStack fileName st = Some (fragment, st')
         \<Longrightarrow> registry_grows e st st'"
  unfolding include_fragment_def Let_def
  by (auto split: if_splits option.splits
           intro: registry_grows_warn registry_grows_refl
           dest!: self elim: registry_grows_trans[rotated] intro!: registry_grows_add)
lemma include_parts_grows:
  assumes self: "\<And>c f s st0 t st1. self c f s st0 = Some (t, st1) \<Longrightarrow> registry_grows e st0 st1"
  shows "include_parts self e content currentFile inclusionStack ms lastIndex parts st = Some (parts', lastIndex', st')
         \<Longrightarrow> registry_grows e st st'"
proof (induction ms arbitrary: lastIndex parts st)
  case Nil
  then show ?case by (simp add: registry_grows_refl)
next
  case (Cons m ms)
  from Cons.prems obtain fragment st1 where
    f: "include_fragment self e currentFile inclusionStack (match_fileName m) st = Some (fragment, st1)"
    and r: "include_parts self e content currentFile inclusionStack ms (match_index m)
              (parts @ [slice content (match_index m + length (match_text m)) lastIndex, fragment]) st1
            = Some (parts', lastIndex', st')"
    by (auto split: option.splits)
  from include_fragment_grows[OF self f] Cons.IH[OF r] show ?case
    by (rule registry_grows_trans)
qed
lemma processIncludes_grows:
  "processIncludes depth e content currentFile inclusionStack st = Some (t, st') \<Longrightarrow> registry_grows e st st'"
proof (induction depth arbitrary: content currentFile inclusionStack st t st')
  case 0
  then show ?case by simp
next
  case (Suc depth)
  show ?case
  proof (cases "include_matches content = []")
    case True
    with Suc.prems show ?thesis by (simp add: registry_grows_refl)
  next
    case False
    with Suc.prems obtain parts lastIndex where
      "include_parts (processIncludes depth e) e content currentFile inclusionStack
         (rev (include_matches content)) (length content) [] st = Some (parts, lastIndex, st')"
      by (auto simp: Let_def split: option.splits)
    then show ?thesis by (rule include_parts_grows[rotated]) (rule Suc.IH)
  qed
qed
lemma apply_ops_other:
  "r \<noteq> includedFiles \<Longrightarrow>
   store (foldl (apply_op r) st ops) includedFiles = store st includedFiles
   \<and> next_ref (foldl (apply_op r) st ops) = next_ref st
   \<and> isCompilationMode (foldl (apply_op r) st ops) = isCompilationMode st"
proof (induction ops arbitrary: st)
  case Nil
  then show ?case by simp
next
  case (Cons op ops)
  then show ?case by (cases op) (simp_all add: set_add_def set_delete_def set_clear_def)
qed

text \<open>
  C10.  \<open>getIncludedFiles\<close> returns a new \<open>Set\<close> object holding the elements of the
  registry, and leaves the registry and the flag as they were.  Whatever the caller then
  adds to, deletes from or clears in the returned object, the registry keeps its elements
  and a later \<open>getIncludedFiles\<close> returns them again.  \<open>setCompilationMode(false)\<close> leaves
  the registry, \<open>setCompilationMode(true)\<close> empties it, and a run of \<open>processIncludes\<close> only
  appends to it, in compilation mode, paths of files it has read.
\<close>

theorem included_files_copy_and_frame:
  assumes alloc: "includedFiles < next_ref st"
  shows "(case getIncludedFiles st of (r, st1) \<Rightarrow>
            r \<noteq> includedFiles \<and> next_ref st \<le> r
          \<and> store st1 r = store st includedFiles
          \<and> store st1 includedFiles = store st includedFiles
          \<and> isCompilationMode st1 = isCompilationMode st
          \<and> (\<forall>ops. store (foldl (apply_op r) st1 ops) includedFiles = store st includedFiles
                   \<and> (case getIncludedFiles (foldl (apply_op r) st1 ops) of
                         (r2, st2) \<Rightarrow> store st2 r2 = store st includedFiles)))
       \<and> store (setCompilationMode False st) includedFiles = store st includedFiles
       \<and> store (setCompilationMode True st) includedFiles = []
       \<and> (\<forall>depth e content currentFile inclusionStack t st'.
             processIncludes depth e content currentFile inclusionStack st = Some (t, st')
             \<longrightarrow> registry_grows e st st')"
proof -
  let ?r = "next_ref st"
  let ?st1 = "st\<lparr>store := (store st)(next_ref st := store st includedFiles), next_ref := Suc (next_ref st)\<rparr>"
  have g: "getIncludedFiles st = (?r, ?st1)"
    by (simp add: getIncludedFiles_def set_copy_def)
  from alloc have ne: "?r \<noteq> includedFiles" by simp
  have ops: "store (foldl (apply_op ?r) ?st1 ops) includedFiles = store st includedFiles
             \<and> (case getIncludedFiles (foldl (apply_op ?r) ?st1 ops) of
                   (r2, st2) \<Rightarrow> store st2 r2 = store st includedFiles)" for ops
    using apply_ops_other[OF ne, of ?st1 ops] ne
    by (simp add: getIncludedFiles_def set_copy_def)
  have modes: "store (setCompilationMode False st) includedFiles = store st includedFiles"
              "store (setCompilationMode True st) includedFiles = []"
    by (simp_all add: setCompilationMode_def set_clear_def)
  show ?thesis
    unfolding g using ne ops modes processIncludes_grows by auto
qed

definition registry_demo :: engine where
  "registry_demo = set_add includedFiles ''a.html'' (setCompilationMode True init_engine)"

theorem included_files_copy_and_frame_witness:
  "includedFiles < next_ref registry_demo
   \<and> (case getIncludedFiles registry_demo of (r, st1) \<Rightarrow>
          r \<noteq> includedFiles \<and> store st1 r = [''a.html'']
        \<and> store (foldl (apply_op r) st1 [Clear, Add ''z'']) includedFiles = [''a.html''])
   \<and> store (setCompilationMode True registry_demo) includedFiles = []"
proof -
  have alloc: "includedFiles < next_ref registry_demo"
    by (simp add: registry_demo_def init_engine_def setCompilationMode_def set_add_def set_clear_def
          includedFiles_def)
  have reg: "store registry_demo includedFiles = [''a.html'']"
    by (simp add: registry_demo_def init_engine_def setCompilationMode_def set_add_def set_clear_def)
  obtain r st1 where g: "getIncludedFiles registry_demo = (r, st1)"
    by (cases "getIncludedFiles registry_demo")
  from included_files_copy_and_frame[OF alloc] g
  have new: "r \<noteq> includedFiles" and copy: "store st1 r = store registry_demo includedFiles"
    and ops: "\<forall>ops. store (foldl (apply_op r) st1 ops) includedFiles = store registry_demo includedFiles"
    and cleared: "store (setCompilationMode True registry_demo) includedFiles = []"
    by auto
  from ops have "store (foldl (apply_op r) st1 [Clear, Add ''z'']) includedFiles = store registry_demo includedFiles"
    by (rule spec)
  with alloc new copy cleared show ?thesis
    unfolding g prod.case reg by blast
qed

end
